theory Spec2Isabelle
  imports Main "HOL-Library.AList"
begin

section \<open>JavaScript values used by the solver\<close>

text \<open>
  A JavaScript object with string-like keys is an association list in insertion order:
  \<open>obj[k] = v\<close> is \<^const>\<open>AList.update\<close> (in place when the key exists, appended
  otherwise), \<open>obj[k]\<close> is \<^const>\<open>map_of\<close> (\<open>None\<close> is \<open>undefined\<close>), and
  \<open>for (k in obj)\<close> walks the list. None of the keys used here is an integer index
  (slot names end in ACROSS or DOWN, position keys contain a comma), so insertion order
  is the enumeration order.
\<close>

type_synonym cell = string
type_synonym grid = "cell list list"
type_synonym pos = "nat \<times> nat"
type_synonym slots = "(string \<times> pos list) list"
type_synonym overlaps = "(nat \<times> nat) list"
type_synonym constraints = "(string \<times> (string \<times> overlaps) list) list"
type_synonym domains = "(string \<times> string list) list"
type_synonym assignment = "(string \<times> string) list"
type_synonym positionMap = "(pos \<times> (string \<times> nat) list) list"

datatype direction = Across | Down

text \<open>What a call does: it returns a value, or it throws (a \<open>TypeError\<close> from reading a
  property of \<open>undefined\<close>), or the model's recursion budget ran out.\<close>

datatype 'a outcome = Returns 'a | Throws | OutOfFuel

text \<open>\<open>word[i]\<close>: a character, or \<open>undefined\<close> beyond the end.\<close>

definition charAt :: "string \<Rightarrow> nat \<Rightarrow> char option" where
  "charAt w i = (if i < length w then Some (w ! i) else None)"

text \<open>The tests \<open>/\\d/.test(val)\<close> and \<open>/[A-Z]/.test(val)\<close>: some character of the string
  is a digit, an upper-case letter.\<close>

definition isDigit :: "char \<Rightarrow> bool" where
  "isDigit ch = (ch \<in> set ''0123456789'')"

definition isUpper :: "char \<Rightarrow> bool" where
  "isUpper ch = (ch \<in> set ''ABCDEFGHIJKLMNOPQRSTUVWXYZ'')"

definition hasDigit :: "string \<Rightarrow> bool" where
  "hasDigit val = list_ex isDigit val"

definition hasUpper :: "string \<Rightarrow> bool" where
  "hasUpper val = list_ex isUpper val"

text \<open>\<open>val.trim() !== ""\<close>: some character is not white space (tab, line feed, vertical
  tab, form feed, carriage return, space, no-break space).\<close>

definition isSpace :: "char \<Rightarrow> bool" where
  "isSpace ch = (of_char ch \<in> set [9, 10, 11, 12, 13, 32, 160 :: nat])"

definition trimNonEmpty :: "string \<Rightarrow> bool" where
  "trimNonEmpty val = list_ex (\<lambda>ch. \<not> isSpace ch) val"

section \<open>Grid analysis\<close>

text \<open>\<open>this.grid[r][c]\<close> for \<open>r\<close> inside the grid: the cell, or \<open>undefined\<close> when the row is
  too short.\<close>

definition cellAt :: "grid \<Rightarrow> nat \<Rightarrow> nat \<Rightarrow> cell option" where
  "cellAt g r c = (if r < length g \<and> c < length (g ! r) then Some (g ! r ! c) else None)"

text \<open>\<open>this.grid[0].length\<close>; only read where the grid has a row.\<close>

definition cols :: "grid \<Rightarrow> nat" where
  "cols g = (case g of [] \<Rightarrow> 0 | row # _ \<Rightarrow> length row)"

text \<open>\<open>validateGrid\<close>: the grid is not empty and every row is as long as the first.\<close>

definition validateGrid :: "grid \<Rightarrow> bool" where
  "validateGrid g = (g \<noteq> [] \<and> list_all (\<lambda>row. length row = cols g) g)"

text \<open>\<open>getSlotPositions\<close>: the while loop walks right (across) or down from \<open>(r, c)\<close> as long
  as it is inside the grid and not on a block; \<open>undefined !== "#"\<close> holds.\<close>

function getSlotPositions :: "grid \<Rightarrow> nat \<Rightarrow> nat \<Rightarrow> direction \<Rightarrow> pos list" where
  "getSlotPositions g r c d =
     (if r < length g \<and> c < cols g \<and> cellAt g r c \<noteq> Some ''#''
      then (r, c) # (case d of Across \<Rightarrow> getSlotPositions g r (c + 1) d
                              | Down \<Rightarrow> getSlotPositions g (r + 1) c d)
      else [])"
  by pat_completeness auto
termination
  by (relation "measure (\<lambda>(g, r, c, d). (length g - r) + (cols g - c))") auto

text \<open>The body of the slot loop of \<open>generateSlots\<close> at one cell: a cell holding a digit
  opens an across slot when it is in column 0 or right of a block, a down slot when it is
  in row 0 or below a block; a run shorter than 2 is dropped; the slot is stored under
  the cell's text followed by ACROSS or DOWN, replacing an older slot of that name.\<close>

definition cellSlots :: "grid \<Rightarrow> nat \<Rightarrow> nat \<Rightarrow> slots \<Rightarrow> slots" where
  "cellSlots g r c sl =
     (case cellAt g r c of
        None \<Rightarrow> sl
      | Some val \<Rightarrow>
          if hasDigit val then
            (let sl1 =
               (if c = 0 \<or> cellAt g r (c - 1) = Some ''#''
                then (let positions = getSlotPositions g r c Across
                      in if length positions \<ge> 2
                         then AList.update (val @ ''ACROSS'') positions sl else sl)
                else sl)
             in (if r = 0 \<or> cellAt g (r - 1) c = Some ''#''
                 then (let positions = getSlotPositions g r c Down
                       in if length positions \<ge> 2
                          then AList.update (val @ ''DOWN'') positions sl1 else sl1)
                 else sl1))
          else sl)"

definition identifySlots :: "grid \<Rightarrow> slots" where
  "identifySlots g =
     fold (\<lambda>r sl. fold (\<lambda>c sl'. cellSlots g r c sl') [0..<cols g] sl) [0..<length g] []"

section \<open>Constraint construction\<close>

text \<open>\<open>positionMap[key].push({slot, idx})\<close>, creating the list when the key is new. The key
  \<open>`${r},${c}`\<close> is kept as the pair it encodes.\<close>

definition pushPosition :: "pos \<Rightarrow> string \<times> nat \<Rightarrow> positionMap \<Rightarrow> positionMap" where
  "pushPosition key e pm =
     AList.update key ((case map_of pm key of None \<Rightarrow> [] | Some es \<Rightarrow> es) @ [e]) pm"

definition collectPositions :: "slots \<Rightarrow> positionMap" where
  "collectPositions sl =
     fold (\<lambda>(slot, positions) pm.
             fold (\<lambda>idx pm'. pushPosition (positions ! idx) (slot, idx) pm')
                  [0..<length positions] pm)
          sl []"

text \<open>\<open>this.constraints[a][b].push([i, j])\<close>, creating the inner object and the list when
  missing.\<close>

definition pushOverlap :: "string \<Rightarrow> string \<Rightarrow> nat \<times> nat \<Rightarrow> constraints \<Rightarrow> constraints" where
  "pushOverlap a b p cs =
     (let inner = (case map_of cs a of None \<Rightarrow> [] | Some m \<Rightarrow> m);
          lst = (case map_of inner b of None \<Rightarrow> [] | Some l \<Rightarrow> l)
      in AList.update a (AList.update b (lst @ [p]) inner) cs)"

definition addOverlap :: "(string \<times> nat) \<times> (string \<times> nat) \<Rightarrow> constraints \<Rightarrow> constraints" where
  "addOverlap e cs =
     (case e of ((slotA, idxA), (slotB, idxB)) \<Rightarrow>
        pushOverlap slotB slotA (idxB, idxA) (pushOverlap slotA slotB (idxA, idxB) cs))"

text \<open>The index pairs \<open>i < j\<close> of the double loop, in its order.\<close>

fun pairs :: "'a list \<Rightarrow> ('a \<times> 'a) list" where
  "pairs [] = []"
| "pairs (x # xs) = map (Pair x) xs @ pairs xs"

definition constraintsOf :: "positionMap \<Rightarrow> constraints" where
  "constraintsOf pm =
     fold (\<lambda>(key, overlaps) cs.
             if length overlaps > 1 then fold addOverlap (pairs overlaps) cs else cs)
          pm []"

definition generateConstraints :: "slots \<Rightarrow> constraints" where
  "generateConstraints sl = constraintsOf (collectPositions sl)"

text \<open>\<open>this.constraints[a][b]\<close> where both levels may be missing.\<close>

definition overlapsOf :: "constraints \<Rightarrow> string \<Rightarrow> string \<Rightarrow> overlaps option" where
  "overlapsOf cs a b = (case map_of cs a of None \<Rightarrow> None | Some m \<Rightarrow> map_of m b)"

definition defined :: "constraints \<Rightarrow> string \<Rightarrow> string \<Rightarrow> bool" where
  "defined cs a b = (overlapsOf cs a b \<noteq> None)"

definition ovset :: "constraints \<Rightarrow> string \<Rightarrow> string \<Rightarrow> (nat \<times> nat) set" where
  "ovset cs a b = (case overlapsOf cs a b of None \<Rightarrow> {} | Some l \<Rightarrow> set l)"

definition mirrored :: "constraints \<Rightarrow> bool" where
  "mirrored cs =
     (\<forall>a b. defined cs a b = defined cs b a \<and>
            (\<forall>i j. ((i, j) \<in> ovset cs a b) = ((j, i) \<in> ovset cs b a)))"

section \<open>Domain initialisation\<close>

type_synonym wordLengthCache = "(nat \<times> string list) list"
type_synonym cellContents = "(pos \<times> cell option) list"

text \<open>\<open>cacheWordsByLength\<close>: the words are bucketed by \<open>word.length\<close>, each bucket in
  dictionary order.\<close>

definition cacheWordsByLength :: "string list \<Rightarrow> wordLengthCache" where
  "cacheWordsByLength ws =
     fold (\<lambda>word cache.
             AList.update (length word)
               ((case map_of cache (length word) of None \<Rightarrow> [] | Some l \<Rightarrow> l) @ [word]) cache)
          ws []"

text \<open>\<open>this.wordLengthCache[length] || []\<close>.\<close>

definition getWordsByLength :: "wordLengthCache \<Rightarrow> nat \<Rightarrow> string list" where
  "getWordsByLength cache n = (case map_of cache n of None \<Rightarrow> [] | Some l \<Rightarrow> l)"

text \<open>The first loop of \<open>generateSlots\<close> at one cell: a cell with an upper-case letter is
  recorded with its text, any other cell that is neither a block nor blank is recorded
  as \<open>null\<close> (\<open>None\<close>), the rest is left out.\<close>

definition cellContentsStep :: "grid \<Rightarrow> nat \<Rightarrow> nat \<Rightarrow> cellContents \<Rightarrow> cellContents" where
  "cellContentsStep g r c cc =
     (case cellAt g r c of
        None \<Rightarrow> cc
      | Some val \<Rightarrow>
          if hasUpper val then AList.update (r, c) (Some val) cc
          else if val \<noteq> ''#'' \<and> trimNonEmpty val then AList.update (r, c) None cc
          else cc)"

text \<open>The loop over all cells. \<open>this.grid[0].length\<close> throws on a grid without rows, and
  \<open>val.trim()\<close> throws where a row is shorter than the first one (\<open>val\<close> is
  \<open>undefined\<close> there); \<open>validateGrid\<close> excludes both before \<open>generateSlots\<close> runs.\<close>

definition fillCellContents :: "grid \<Rightarrow> cellContents outcome" where
  "fillCellContents g =
     (if g = [] \<or> \<not> list_all (\<lambda>row. cols g \<le> length row) g then Throws
      else Returns
        (fold (\<lambda>r cc. fold (\<lambda>c cc'. cellContentsStep g r c cc') [0..<cols g] cc)
              [0..<length g] []))"

text \<open>\<open>this.cellContents[key] || '.'\<close>: the recorded text when there is one (and it is not
  the empty string), a dot otherwise.\<close>

definition patternPiece :: "cellContents \<Rightarrow> pos \<Rightarrow> string" where
  "patternPiece cc key =
     (case map_of cc key of
        Some (Some val) \<Rightarrow> if val = [] then ''.'' else val
      | _ \<Rightarrow> ''.'')"

definition slotPattern :: "cellContents \<Rightarrow> pos list \<Rightarrow> string" where
  "slotPattern cc positions = concat (map (patternPiece cc) positions)"

text \<open>\<open>new RegExp(`^${pattern}$`).test(word)\<close> for a pattern made of letters and dots, which
  is what a grid whose letter cells hold one letter each gives: the word has the
  pattern's length, a dot stands for any character but a line terminator, a letter for
  itself.\<close>

definition isLineTerminator :: "char \<Rightarrow> bool" where
  "isLineTerminator ch = (of_char ch \<in> set [10, 13 :: nat])"

fun regexTest :: "string \<Rightarrow> string \<Rightarrow> bool" where
  "regexTest [] [] = True"
| "regexTest (p # ps) (ch # w) =
     ((if p = CHR ''.'' then \<not> isLineTerminator ch else p = ch) \<and> regexTest ps w)"
| "regexTest _ _ = False"

text \<open>\<open>setupDomains\<close> (script.js): every slot gets the words of its length that match its
  pattern.\<close>

definition setupDomains :: "slots \<Rightarrow> cellContents \<Rightarrow> wordLengthCache \<Rightarrow> domains \<Rightarrow> domains" where
  "setupDomains sl cc cache ds =
     fold (\<lambda>(slot, positions) ds'.
             AList.update slot
               (filter (regexTest (slotPattern cc positions))
                       (getWordsByLength cache (length positions))) ds')
          sl ds"




section \<open>Arc consistency\<close>

text \<open>\<open>revise(var1, var2)\<close>. A word of \<open>domains[var1]\<close> is kept when \<^emph>\<open>some\<close> overlap pair
  \<open>(idx1, idx2)\<close> has a word of \<open>domains[var2]\<close> with the same character (\<open>overlaps.some\<close>
  around \<open>domains[var2].some\<close>). The domain is replaced only when it got shorter.
  Reading a property of \<open>undefined\<close> throws: \<open>constraints[var1]\<close> and \<open>domains[var1]\<close>
  always, \<open>overlaps\<close> when there is a word to test, \<open>domains[var2]\<close> when there is an
  overlap pair to test.\<close>

definition reviseKeeps :: "overlaps \<Rightarrow> string list \<Rightarrow> string \<Rightarrow> bool" where
  "reviseKeeps ovs d2 word1 =
     list_ex (\<lambda>(idx1, idx2). list_ex (\<lambda>word2. charAt word1 idx1 = charAt word2 idx2) d2) ovs"

definition revise :: "constraints \<Rightarrow> domains \<Rightarrow> string \<Rightarrow> string \<Rightarrow> (bool \<times> domains) outcome" where
  "revise cs ds var1 var2 =
     (case map_of cs var1 of
        None \<Rightarrow> Throws
      | Some m \<Rightarrow>
         (case map_of ds var1 of
            None \<Rightarrow> Throws
          | Some d1 \<Rightarrow>
              if d1 = [] then Returns (False, ds)
              else (case map_of m var2 of
                      None \<Rightarrow> Throws
                    | Some ovs \<Rightarrow>
                        if ovs \<noteq> [] \<and> map_of ds var2 = None then Throws
                        else (let d2 = (case map_of ds var2 of None \<Rightarrow> [] | Some d \<Rightarrow> d);
                                  newDomain = filter (reviseKeeps ovs d2) d1
                              in if length newDomain < length d1
                                 then Returns (True, AList.update var1 newDomain ds)
                                 else Returns (False, ds)))))"

text \<open>The work queue is a \<open>Set\<close> of strings \<open>`${a},${b}`\<close>, split again at the comma when
  taken out; slot names have no comma, so the model keeps the pair. \<open>add\<close> appends a new
  element and leaves the set alone when it is there already.\<close>

definition queueAdd :: "'a \<Rightarrow> 'a list \<Rightarrow> 'a list" where
  "queueAdd x q = (if x \<in> set q then q else q @ [x])"

definition initialQueue :: "constraints \<Rightarrow> (string \<times> string) list" where
  "initialQueue cs =
     fold (\<lambda>(slotA, m) q. fold (\<lambda>(slotB, ovs) q'. queueAdd (slotA, slotB) q') m q) cs []"

definition totalSize :: "domains \<Rightarrow> nat" where
  "totalSize ds = sum_list (map (\<lambda>(k, d). length d) ds)"

lemma totalSize_update:
  "map_of ds k = Some d \<Longrightarrow> length d' < length d \<Longrightarrow> totalSize (AList.update k d' ds) < totalSize ds"
  by (induction ds) (auto simp: totalSize_def split: if_splits)

lemma revise_shrinks:
  "revise cs ds var1 var2 = Returns (True, ds') \<Longrightarrow> totalSize ds' < totalSize ds"
  by (auto simp: revise_def Let_def totalSize_update split: option.splits if_splits)

function ac3Loop :: "constraints \<Rightarrow> domains \<Rightarrow> (string \<times> string) list \<Rightarrow> (bool \<times> domains) outcome" where
  "ac3Loop cs ds [] = Returns (True, ds)"
| "ac3Loop cs ds ((var1, var2) # rest) =
     (let queue = removeAll (var1, var2) rest
      in case revise cs ds var1 var2 of
           Returns (revised, ds') \<Rightarrow>
             if revised then
               (case map_of ds' var1 of
                  None \<Rightarrow> Throws
                | Some d \<Rightarrow>
                    if d = [] then Returns (False, ds')
                    else ac3Loop cs ds'
                           (fold (\<lambda>(neighbor, ovs) q.
                                    if neighbor \<noteq> var2 then queueAdd (neighbor, var1) q else q)
                                 (case map_of cs var1 of None \<Rightarrow> [] | Some m \<Rightarrow> m) queue))
             else ac3Loop cs ds' queue
         | Throws \<Rightarrow> Throws
         | OutOfFuel \<Rightarrow> OutOfFuel)"
  by pat_completeness auto
termination
proof (relation "measures [\<lambda>(cs, ds, q). totalSize ds, \<lambda>(cs, ds, q). length q]", goal_cases)
  case 1
  show ?case by simp
next
  case (2 cs ds var1 var2 rest queue x revised ds' d)
  then show ?case
    using revise_shrinks by auto
next
  case (3 cs ds var1 var2 rest queue x revised ds')
  have le: "length (removeAll (var1, var2) rest) < Suc (length rest)"
    by (simp add: less_Suc_eq_le)
  have "ds' = ds"
    using 3 by (auto simp: revise_def Let_def split: option.splits if_splits)
  then show ?case
    using 3 le by simp
qed

definition ac3 :: "constraints \<Rightarrow> domains \<Rightarrow> (bool \<times> domains) outcome" where
  "ac3 cs ds = ac3Loop cs ds (initialQueue cs)"


section \<open>The solver object\<close>

text \<open>The fields of \<open>CrosswordSolver\<close> that the solving methods read and write.
  \<open>Math.random\<close> is the hidden global the solver draws from: \<open>randomSource\<close> lists its
  results, \<open>randomCount\<close> says how many were drawn. \<open>statusLog\<close> collects the messages
  that \<open>solveCrosswordThread\<close> itself passes to \<open>updateStatus\<close>.\<close>

record solver =
  grid :: grid
  wordLengthCache :: wordLengthCache
  letterFrequencies :: "(char \<times> nat) list"
  slots :: slots
  constraints :: constraints
  domains :: domains
  cellContents :: cellContents
  solution :: assignment
  recursiveCalls :: nat
  isSolving :: bool
  statusLog :: "string list"
  randomSource :: "nat \<Rightarrow> nat"
  randomCount :: nat

text \<open>\<open>Math.floor(Math.random() * n)\<close>: an index below \<open>n\<close> (\<open>0\<close> when \<open>n\<close> is \<open>0\<close>).\<close>

definition randomIndex :: "nat \<Rightarrow> solver \<Rightarrow> nat \<times> solver" where
  "randomIndex n st =
     ((if n = 0 then 0 else randomSource st (randomCount st) mod n),
      st\<lparr>randomCount := Suc (randomCount st)\<rparr>)"

text \<open>\<open>shuffleArray\<close>: for \<open>i\<close> from the last index down to 1, swap the entries at \<open>i\<close> and
  at a random \<open>j \<le> i\<close>.\<close>

fun shuffleFrom :: "nat \<Rightarrow> 'a list \<Rightarrow> solver \<Rightarrow> 'a list \<times> solver" where
  "shuffleFrom 0 xs st = (xs, st)"
| "shuffleFrom (Suc k) xs st =
     (case randomIndex (Suc k + 1) st of
        (j, st') \<Rightarrow> shuffleFrom k (xs[Suc k := xs ! j, j := xs ! Suc k]) st')"

definition shuffleArray :: "'a list \<Rightarrow> solver \<Rightarrow> 'a list \<times> solver" where
  "shuffleArray xs st = shuffleFrom (length xs - 1) xs st"

text \<open>\<open>randomizeDomains\<close>: every domain is shuffled, in the order of the keys.\<close>

definition randomizeDomains :: "solver \<Rightarrow> solver" where
  "randomizeDomains st =
     fold (\<lambda>slot st'.
             case map_of (domains st') slot of
               None \<Rightarrow> st'
             | Some d \<Rightarrow>
                 (case shuffleArray d st' of
                    (d', st'') \<Rightarrow> st''\<lparr>domains := AList.update slot d' (domains st'')\<rparr>))
          (map fst (domains st)) st"

section \<open>Backtracking search\<close>

text \<open>\<open>selectUnassignedVariable\<close>: among the domain keys not in the assignment, those with
  the smallest domain (\<open>minSize\<close> starts at \<open>Infinity\<close>, here \<open>None\<close>), among those the
  ones with the most neighbours (\<open>maxDegree\<close> starts at \<open>-1\<close>), and a random one of
  these. \<open>null\<close> (\<open>None\<close>) when every key is assigned.\<close>

definition mrvStep :: "domains \<Rightarrow> string \<Rightarrow> nat option \<times> string list \<Rightarrow> nat option \<times> string list" where
  "mrvStep ds slot acc =
     (case acc of (minSize, candidates) \<Rightarrow>
        (let size = (case map_of ds slot of None \<Rightarrow> 0 | Some d \<Rightarrow> length d)
         in if (case minSize of None \<Rightarrow> True | Some m \<Rightarrow> size < m) then (Some size, [slot])
            else if minSize = Some size then (minSize, candidates @ [slot])
            else (minSize, candidates)))"

definition degreeStep :: "constraints \<Rightarrow> string \<Rightarrow> int \<times> string list \<Rightarrow> int \<times> string list" where
  "degreeStep cs slot acc =
     (case acc of (maxDegree, finalCandidates) \<Rightarrow>
        (let deg = (case map_of cs slot of None \<Rightarrow> 0 | Some m \<Rightarrow> int (length m))
         in if deg > maxDegree then (deg, [slot])
            else if deg = maxDegree then (maxDegree, finalCandidates @ [slot])
            else (maxDegree, finalCandidates)))"

definition selectUnassignedVariable :: "solver \<Rightarrow> assignment \<Rightarrow> string option \<times> solver" where
  "selectUnassignedVariable st a =
     (let unassigned = filter (\<lambda>s. map_of a s = None) (map fst (domains st))
      in if unassigned = [] then (None, st)
         else (let candidates = snd (fold (mrvStep (domains st)) unassigned (None, []));
                   finalCandidates = snd (fold (degreeStep (constraints st)) candidates (- 1, []))
               in case randomIndex (length finalCandidates) st of
                    (j, st') \<Rightarrow>
                      ((if j < length finalCandidates then Some (finalCandidates ! j) else None),
                       st')))"

text \<open>\<open>orderDomainValues\<close>: a copy of the domain, sorted (stably) by the sum of the letter
  frequencies and then shuffled.\<close>

definition getFrequencyScore :: "(char \<times> nat) list \<Rightarrow> string \<Rightarrow> nat" where
  "getFrequencyScore lf word =
     fold (\<lambda>ch acc. acc + (case map_of lf ch of None \<Rightarrow> 0 | Some n \<Rightarrow> n)) word 0"

definition orderDomainValues :: "solver \<Rightarrow> string \<Rightarrow> string list \<times> solver" where
  "orderDomainValues st slot =
     shuffleArray
       (sort_key (getFrequencyScore (letterFrequencies st))
          (case map_of (domains st) slot of None \<Rightarrow> [] | Some d \<Rightarrow> d))
       st"

text \<open>\<open>wordMatchesPreFilledLetters\<close>: no position of the slot has a recorded letter that
  differs from \<open>word[i]\<close>. \<open>this.slots[slot].length\<close> throws for an unknown slot.\<close>

definition preFilledDiffers :: "cellContents \<Rightarrow> pos \<Rightarrow> char option \<Rightarrow> bool" where
  "preFilledDiffers cc key ch =
     (case map_of cc key of
        Some (Some preFilled) \<Rightarrow>
          preFilled \<noteq> [] \<and> (case ch of None \<Rightarrow> True | Some x \<Rightarrow> preFilled \<noteq> [x])
      | _ \<Rightarrow> False)"

definition wordMatchesPreFilledLetters :: "solver \<Rightarrow> string \<Rightarrow> string \<Rightarrow> bool outcome" where
  "wordMatchesPreFilledLetters st slot word =
     (case map_of (slots st) slot of
        None \<Rightarrow> Throws
      | Some positions \<Rightarrow>
          Returns (list_all (\<lambda>i. \<not> preFilledDiffers (cellContents st) (positions ! i) (charAt word i))
                            [0..<length positions]))"

text \<open>\<open>wordsMatch\<close>: the two words agree at every overlap pair of \<open>constraints[var1][var2]\<close>;
  iterating \<open>undefined\<close> throws.\<close>

definition wordsMatch :: "constraints \<Rightarrow> string \<Rightarrow> string \<Rightarrow> string \<Rightarrow> string \<Rightarrow> bool outcome" where
  "wordsMatch cs var1 word1 var2 word2 =
     (case overlapsOf cs var1 var2 of
        None \<Rightarrow> Throws
      | Some ovs \<Rightarrow> Returns (list_all (\<lambda>(idx1, idx2). charAt word1 idx1 = charAt word2 idx2) ovs))"

text \<open>\<open>array.filter(f)\<close> for a callback that may throw.\<close>

fun filterOutcome :: "('a \<Rightarrow> bool outcome) \<Rightarrow> 'a list \<Rightarrow> 'a list outcome" where
  "filterOutcome f [] = Returns []"
| "filterOutcome f (x # xs) =
     (case f x of
        Returns b \<Rightarrow>
          (case filterOutcome f xs of
             Returns ys \<Rightarrow> Returns (if b then x # ys else ys)
           | Throws \<Rightarrow> Throws | OutOfFuel \<Rightarrow> OutOfFuel)
      | Throws \<Rightarrow> Throws | OutOfFuel \<Rightarrow> OutOfFuel)"

text \<open>\<open>isConsistent\<close>: the word fits the pre-filled letters; it matches the word of every
  assigned neighbour; every unassigned neighbour keeps at least one matching word.\<close>

fun neighborsConsistent ::
  "solver \<Rightarrow> string \<Rightarrow> string \<Rightarrow> assignment \<Rightarrow> string list \<Rightarrow> bool outcome" where
  "neighborsConsistent st slot word a [] = Returns True"
| "neighborsConsistent st slot word a (neighbor # rest) =
     (case map_of a neighbor of
        Some word2 \<Rightarrow>
          (case wordsMatch (constraints st) slot word neighbor word2 of
             Returns b \<Rightarrow> if b then neighborsConsistent st slot word a rest else Returns False
           | Throws \<Rightarrow> Throws | OutOfFuel \<Rightarrow> OutOfFuel)
      | None \<Rightarrow>
          (case map_of (domains st) neighbor of
             None \<Rightarrow> Throws
           | Some d \<Rightarrow>
               (case filterOutcome (wordsMatch (constraints st) slot word neighbor) d of
                  Returns viable \<Rightarrow>
                    if viable = [] then Returns False
                    else neighborsConsistent st slot word a rest
                | Throws \<Rightarrow> Throws | OutOfFuel \<Rightarrow> OutOfFuel)))"

definition neighborsOf :: "constraints \<Rightarrow> string \<Rightarrow> string list" where
  "neighborsOf cs slot = (case map_of cs slot of None \<Rightarrow> [] | Some m \<Rightarrow> map fst m)"

definition isConsistent :: "solver \<Rightarrow> string \<Rightarrow> string \<Rightarrow> assignment \<Rightarrow> bool outcome" where
  "isConsistent st slot word a =
     (case wordMatchesPreFilledLetters st slot word of
        Returns b \<Rightarrow>
          if b then neighborsConsistent st slot word a (neighborsOf (constraints st) slot)
          else Returns False
      | Throws \<Rightarrow> Throws | OutOfFuel \<Rightarrow> OutOfFuel)"

text \<open>\<open>forwardCheck\<close>: every unassigned neighbour's domain is cut down to the words that
  match; the old domain goes into \<open>inferences\<close>. When a domain would become empty the
  method returns \<open>false\<close> (\<open>None\<close>) at once, leaving the domains cut so far as they are.\<close>

fun forwardCheckLoop ::
  "constraints \<Rightarrow> string \<Rightarrow> string \<Rightarrow> assignment \<Rightarrow> string list \<Rightarrow> domains \<Rightarrow> domains
     \<Rightarrow> (domains option \<times> domains) outcome" where
  "forwardCheckLoop cs slot val a [] inferences ds = Returns (Some inferences, ds)"
| "forwardCheckLoop cs slot val a (neighbor # rest) inferences ds =
     (if map_of a neighbor = None then
        (case map_of ds neighbor of
           None \<Rightarrow> Throws
         | Some d \<Rightarrow>
             (case filterOutcome (wordsMatch cs slot val neighbor) d of
                Returns newDomain \<Rightarrow>
                  if newDomain = [] then Returns (None, ds)
                  else forwardCheckLoop cs slot val a rest
                         (AList.update neighbor d inferences)
                         (AList.update neighbor newDomain ds)
              | Throws \<Rightarrow> Throws | OutOfFuel \<Rightarrow> OutOfFuel))
      else forwardCheckLoop cs slot val a rest inferences ds)"

definition forwardCheck ::
  "solver \<Rightarrow> string \<Rightarrow> string \<Rightarrow> assignment \<Rightarrow> (domains option \<times> solver) outcome" where
  "forwardCheck st slot val a =
     (case forwardCheckLoop (constraints st) slot val a (neighborsOf (constraints st) slot) []
             (domains st) of
        Returns (inferences, ds) \<Rightarrow> Returns (inferences, st\<lparr>domains := ds\<rparr>)
      | Throws \<Rightarrow> Throws | OutOfFuel \<Rightarrow> OutOfFuel)"

text \<open>\<open>restoreDomains\<close>: nothing for \<open>false\<close>, otherwise every saved domain is put back.\<close>

definition restoreDomains :: "domains option \<Rightarrow> solver \<Rightarrow> solver" where
  "restoreDomains inferences st =
     (case inferences of
        None \<Rightarrow> st
      | Some saved \<Rightarrow>
          st\<lparr>domains := fold (\<lambda>(v, d) ds. AList.update v d ds) saved (domains st)\<rparr>)"

text \<open>\<open>backtrackingSolve(assignment, cache)\<close>. The cache key is the JSON text of the sorted
  entries of the assignment, which is one text per set of entries; the model uses the
  set. \<open>search\<close> is one call, \<open>tryValues\<close> the loop over the ordered values; the result
  carries the \<open>cache\<close> and the solver object as the call leaves them. The first argument
  bounds the depth of the recursion.\<close>

type_synonym cache = "((string \<times> string) set \<times> bool) list"

fun search :: "nat \<Rightarrow> solver \<Rightarrow> assignment \<Rightarrow> cache \<Rightarrow> (bool \<times> cache \<times> solver) outcome"
and tryValues ::
  "nat \<Rightarrow> solver \<Rightarrow> assignment \<Rightarrow> cache \<Rightarrow> string \<Rightarrow> string list
     \<Rightarrow> (bool \<times> cache \<times> solver) outcome" where
  "search 0 st a cache = OutOfFuel"
| "search (Suc n) st a cache =
     (if length a = length (slots st) then Returns (True, cache, st\<lparr>solution := a\<rparr>)
      else
        (let st1 = st\<lparr>recursiveCalls := recursiveCalls st + 1\<rparr>
         in case map_of cache (set a) of
              Some b \<Rightarrow> Returns (b, cache, st1)
            | None \<Rightarrow>
                (case selectUnassignedVariable st1 a of
                   (None, st2) \<Rightarrow> Returns (False, AList.update (set a) False cache, st2)
                 | (Some varToAssign, st2) \<Rightarrow>
                     if varToAssign = [] then
                       Returns (False, AList.update (set a) False cache, st2)
                     else
                       (case orderDomainValues st2 varToAssign of
                          (orderedValues, st3) \<Rightarrow>
                            (case tryValues n st3 a cache varToAssign orderedValues of
                               Returns (found, cache', st4) \<Rightarrow>
                                 Returns (found, AList.update (set a) found cache', st4)
                             | Throws \<Rightarrow> Throws | OutOfFuel \<Rightarrow> OutOfFuel)))))"
| "tryValues n st a cache varToAssign [] = Returns (False, cache, st)"
| "tryValues n st a cache varToAssign (val # rest) =
     (case isConsistent st varToAssign val a of
        Returns consistent \<Rightarrow>
          if consistent then
            (case forwardCheck st varToAssign val (AList.update varToAssign val a) of
               Returns (inferences, st1) \<Rightarrow>
                 (if inferences \<noteq> None then
                    (case search n st1 (AList.update varToAssign val a) cache of
                       Returns (found, cache', st2) \<Rightarrow>
                         if found then Returns (True, cache', st2)
                         else tryValues n (restoreDomains inferences st2)
                                (AList.delete varToAssign (AList.update varToAssign val a))
                                cache' varToAssign rest
                     | Throws \<Rightarrow> Throws | OutOfFuel \<Rightarrow> OutOfFuel)
                  else tryValues n (restoreDomains inferences st1)
                         (AList.delete varToAssign (AList.update varToAssign val a))
                         cache varToAssign rest)
             | Throws \<Rightarrow> Throws | OutOfFuel \<Rightarrow> OutOfFuel)
          else tryValues n st a cache varToAssign rest
      | Throws \<Rightarrow> Throws | OutOfFuel \<Rightarrow> OutOfFuel)"

text \<open>The call \<open>this.backtrackingSolve()\<close> with its default arguments; one level of
  recursion per domain key and one more for the last call is all it can use.\<close>

definition backtrackingSolve :: "solver \<Rightarrow> (bool \<times> cache \<times> solver) outcome" where
  "backtrackingSolve st = search (Suc (length (domains st))) st [] []"


section \<open>The solve pipeline\<close>

text \<open>\<open>generateSlots\<close>: the cell contents, the slots, then \<open>generateConstraints\<close> and
  \<open>setupDomains\<close>.\<close>

definition generateSlots :: "solver \<Rightarrow> solver outcome" where
  "generateSlots st =
     (case fillCellContents (grid st) of
        Returns cc \<Rightarrow>
          (let sl = identifySlots (grid st)
           in Returns (st\<lparr>slots := sl,
                           cellContents := cc,
                           constraints := generateConstraints sl,
                           domains := setupDomains sl cc (wordLengthCache st) []\<rparr>))
      | Throws \<Rightarrow> Throws | OutOfFuel \<Rightarrow> OutOfFuel)"

definition updateStatus :: "string \<Rightarrow> solver \<Rightarrow> solver" where
  "updateStatus message st = st\<lparr>statusLog := statusLog st @ [message]\<rparr>"

text \<open>What \<open>solveCrosswordThread\<close> reports. \<open>ErrorHandled\<close> is the \<open>catch\<close> branch;
  \<open>Unfinished\<close> stands for a search that ran out of its depth bound.\<close>

datatype report = InvalidGrid | NoSlots | Solved | NoSolution | ErrorHandled | Unfinished

definition hasEmptyDomain :: "domains \<Rightarrow> bool" where
  "hasEmptyDomain ds = list_ex (\<lambda>(slot, d). d = []) ds"

text \<open>The state in which the search starts: after \<open>randomizeDomains\<close> and \<open>ac3\<close>, with the
  status line that depends on the result of AC-3, and the call counter reset.\<close>

definition afterAc3 :: "solver \<Rightarrow> bool \<Rightarrow> domains \<Rightarrow> solver" where
  "afterAc3 st ac3Success ds =
     (updateStatus
        (if \<not> ac3Success \<or> hasEmptyDomain ds
         then ''AC-3 failed or domains wiped out. Attempting backtracking...''
         else ''Starting backtracking search...'')
        (st\<lparr>domains := ds\<rparr>))\<lparr>recursiveCalls := 0\<rparr>"

definition reportSearch :: "(bool \<times> cache \<times> solver) outcome \<Rightarrow> solver \<Rightarrow> report \<times> solver" where
  "reportSearch result st =
     (case result of
        Returns (found, cache, st') \<Rightarrow>
          if found then (Solved, updateStatus ''Solution found with backtracking.'' st')
          else (NoSolution, updateStatus ''No possible solution found.'' st')
      | Throws \<Rightarrow> (ErrorHandled, updateStatus ''Error during solveCrosswordThread:'' st)
      | OutOfFuel \<Rightarrow> (Unfinished, st))"

text \<open>\<open>solveCrosswordThread\<close>. The lines written by the display helpers and the timing are
  left out of the status log. After an error the fields other than the log are those of
  the last finished step.\<close>

definition solveCrosswordThread :: "solver \<Rightarrow> report \<times> solver" where
  "solveCrosswordThread st =
     (if \<not> validateGrid (grid st) then
        (InvalidGrid,
         updateStatus (if grid st = [] then ''Error: The grid is empty.''
                       else ''Error: The grid is not rectangular.'') st)
      else
        (case generateSlots st of
           Returns st1 \<Rightarrow>
             if slots st1 = [] then
               (NoSlots, updateStatus ''Error: No numbered slots found to solve.'' st1)
             else
               (let st2 = updateStatus ''Running AC-3 algorithm...'' (randomizeDomains st1)
                in case ac3 (constraints st2) (domains st2) of
                     Returns (ac3Success, ds) \<Rightarrow>
                       reportSearch (backtrackingSolve (afterAc3 st2 ac3Success ds))
                         (afterAc3 st2 ac3Success ds)
                   | Throws \<Rightarrow>
                       (ErrorHandled, updateStatus ''Error during solveCrosswordThread:'' st2)
                   | OutOfFuel \<Rightarrow> (Unfinished, st2))
         | Throws \<Rightarrow> (ErrorHandled, updateStatus ''Error during solveCrosswordThread:'' st)
         | OutOfFuel \<Rightarrow> (Unfinished, st)))"

text \<open>\<open>solveCrossword\<close>: refuse when a solve is in progress; otherwise set the flag and run
  the thread. The thread has no \<open>await\<close>, so its body runs within the call; the
  \<open>finally\<close> callback, which clears the flag, runs afterwards (\<open>solveSettled\<close>).\<close>

datatype started = Busy | Started report

definition solveCrossword :: "solver \<Rightarrow> started \<times> solver" where
  "solveCrossword st =
     (if isSolving st then (Busy, st)
      else (case solveCrosswordThread
                   (updateStatus ''Setting up constraints...'' (st\<lparr>isSolving := True\<rparr>)) of
              (r, st') \<Rightarrow> (Started r, st')))"

definition solveSettled :: "solver \<Rightarrow> solver" where
  "solveSettled st = st\<lparr>isSolving := False\<rparr>"

text \<open>\<open>domains[slot]\<close>, read as the empty list when the slot has no domain.\<close>

definition domainOf :: "domains \<Rightarrow> string \<Rightarrow> string list" where
  "domainOf ds slot = (case map_of ds slot of None \<Rightarrow> [] | Some d \<Rightarrow> d)"

text \<open>The retention rule in the words of the specification: \<^emph>\<open>every\<close> overlap pair has a
  word of the other domain with the same character.\<close>

definition reviseKeepsEvery :: "overlaps \<Rightarrow> string list \<Rightarrow> string \<Rightarrow> bool" where
  "reviseKeepsEvery ovs d2 word1 =
     list_all (\<lambda>(idx1, idx2). list_ex (\<lambda>word2. charAt word1 idx1 = charAt word2 idx2) d2) ovs"

text \<open>Two slots with two overlap pairs, as a slot map with two shared cells gives.\<close>

definition cxConstraints :: constraints where
  "cxConstraints = [(''A'', [(''B'', [(0, 0), (1, 1)])]), (''B'', [(''A'', [(0, 0), (1, 1)])])]"

definition cxDomains :: domains where
  "cxDomains = [(''A'', [''AB'']), (''B'', [''AC''])]"

section \<open>Initial domains\<close>






definition solverWith :: "grid \<Rightarrow> string list \<Rightarrow> solver" where
  "solverWith g ws =
     \<lparr>grid = g, wordLengthCache = cacheWordsByLength ws, letterFrequencies = [],
      slots = [], constraints = [], domains = [], cellContents = [], solution = [],
      recursiveCalls = 0, isSolving = False, statusLog = [],
      randomSource = (\<lambda>n. 0), randomCount = 0\<rparr>"

section \<open>What the search leaves alone\<close>

text \<open>The fields the search never writes, and the keys of the domains.\<close>

definition sameFrame :: "solver \<Rightarrow> solver \<Rightarrow> bool" where
  "sameFrame st st' =
     (grid st' = grid st \<and> wordLengthCache st' = wordLengthCache st
      \<and> letterFrequencies st' = letterFrequencies st \<and> slots st' = slots st
      \<and> constraints st' = constraints st \<and> cellContents st' = cellContents st
      \<and> isSolving st' = isSolving st \<and> statusLog st' = statusLog st
      \<and> map fst (domains st') = map fst (domains st))"

section \<open>Variable selection\<close>

text \<open>The size \<open>selectUnassignedVariable\<close> sees for a slot.\<close>

definition domainSize :: "domains \<Rightarrow> string \<Rightarrow> nat" where
  "domainSize ds slot = (case map_of ds slot of None \<Rightarrow> 0 | Some d \<Rightarrow> length d)"

text \<open>The state of the MRV loop after the slots \<open>seen\<close>: nothing yet, or the smallest size
  and the slots that have it.\<close>

definition mrvInv :: "domains \<Rightarrow> string list \<Rightarrow> nat option \<times> string list \<Rightarrow> bool" where
  "mrvInv ds seen acc =
     (case acc of (minSize, candidates) \<Rightarrow>
        (case minSize of
           None \<Rightarrow> seen = [] \<and> candidates = []
         | Some k \<Rightarrow> candidates \<noteq> [] \<and> set candidates \<subseteq> set seen
                     \<and> list_all (\<lambda>c. domainSize ds c = k) candidates
                     \<and> list_all (\<lambda>x. k \<le> domainSize ds x) seen))"

text \<open>The degree loop keeps some of its candidates.\<close>

definition degreeInv :: "string list \<Rightarrow> int \<times> string list \<Rightarrow> bool" where
  "degreeInv seen acc =
     (case acc of (maxDegree, finalCandidates) \<Rightarrow>
        set finalCandidates \<subseteq> set seen \<and> (seen \<noteq> [] \<longrightarrow> finalCandidates \<noteq> [])
        \<and> (finalCandidates = [] \<longrightarrow> maxDegree = - 1))"

text \<open>A grid whose two slots cannot agree on their first letter with the words CA and OB:
  the across slot must end in A, the down slot in B.\<close>

definition wipeGrid :: grid where
  "wipeGrid = [[''1'', ''A''], [''B'', ''#'']]"

(*DEFS*)

section \<open>Symmetry of the constraint table\<close>

lemma overlapsOf_pushOverlap:
  "overlapsOf (pushOverlap a b p cs) x y =
     (if x = a \<and> y = b
      then Some ((case overlapsOf cs a b of None \<Rightarrow> [] | Some l \<Rightarrow> l) @ [p])
      else overlapsOf cs x y)"
  by (auto simp: overlapsOf_def pushOverlap_def Let_def update_conv' split: option.splits)

lemma defined_pushOverlap:
  "defined (pushOverlap a b p cs) x y = (x = a \<and> y = b \<or> defined cs x y)"
  by (auto simp: defined_def overlapsOf_pushOverlap)

lemma mem_ovset_pushOverlap:
  "(q \<in> ovset (pushOverlap a b p cs) x y) = (x = a \<and> y = b \<and> q = p \<or> q \<in> ovset cs x y)"
  by (cases "x = a \<and> y = b") (auto simp: ovset_def overlapsOf_pushOverlap split: option.splits)

lemma defined_addOverlap:
  "defined (addOverlap ((a, i), (b, j)) cs) x y =
     (x = a \<and> y = b \<or> x = b \<and> y = a \<or> defined cs x y)"
  unfolding addOverlap_def prod.case defined_pushOverlap by blast

lemma mem_ovset_addOverlap:
  "(p \<in> ovset (addOverlap ((a, i), (b, j)) cs) x y) =
     (x = a \<and> y = b \<and> p = (i, j) \<or> x = b \<and> y = a \<and> p = (j, i) \<or> p \<in> ovset cs x y)"
  unfolding addOverlap_def prod.case mem_ovset_pushOverlap by blast

lemma mirrored_addOverlap:
  assumes "mirrored cs"
  shows "mirrored (addOverlap e cs)"
proof -
  obtain a i b j where e: "e = ((a, i), (b, j))"
    by (cases e) auto
  have d: "defined cs x y = defined cs y x" for x y
    using assms unfolding mirrored_def by blast
  have s: "((m, n) \<in> ovset cs x y) = ((n, m) \<in> ovset cs y x)" for x y m n
    using assms unfolding mirrored_def by blast
  have "defined (addOverlap ((a, i), (b, j)) cs) x y
          = defined (addOverlap ((a, i), (b, j)) cs) y x" for x y
    unfolding defined_addOverlap using d[of x y] by blast
  moreover have "((m, n) \<in> ovset (addOverlap ((a, i), (b, j)) cs) x y)
          = ((n, m) \<in> ovset (addOverlap ((a, i), (b, j)) cs) y x)" for x y m n
    unfolding mem_ovset_addOverlap prod.inject using s[of m n x y] by blast
  ultimately show ?thesis
    unfolding mirrored_def e by blast
qed

lemma mirrored_fold_addOverlap:
  "mirrored cs \<Longrightarrow> mirrored (fold addOverlap es cs)"
  by (induction es arbitrary: cs) (simp_all add: mirrored_addOverlap)

lemma mirrored_constraintsOf_step:
  "mirrored cs \<Longrightarrow>
   mirrored (fold (\<lambda>(key, overlaps) cs.
             if length overlaps > 1 then fold addOverlap (pairs overlaps) cs else cs) pm cs)"
  by (induction pm arbitrary: cs) (auto simp: mirrored_fold_addOverlap)

lemma mirrored_empty: "mirrored []"
  by (simp add: mirrored_def defined_def ovset_def overlapsOf_def)

lemma mirrored_generateConstraints: "mirrored (generateConstraints sl)"
  unfolding generateConstraints_def constraintsOf_def
  by (rule mirrored_constraintsOf_step [OF mirrored_empty])

text \<open>
  Claim C5. For every slot map, the constraint table built by \<open>generateConstraints\<close> is
  symmetric: \<open>constraints[A][B]\<close> exists exactly when \<open>constraints[B][A]\<close> exists, and
  the index pair \<open>(i, j)\<close> is in \<open>constraints[A][B]\<close> exactly when \<open>(j, i)\<close> is in
  \<open>constraints[B][A]\<close>.
\<close>

theorem constraints_symmetric:
  "defined (generateConstraints sl) a b = defined (generateConstraints sl) b a \<and>
   ((i, j) \<in> ovset (generateConstraints sl) a b)
     = ((j, i) \<in> ovset (generateConstraints sl) b a)"
  using mirrored_generateConstraints [of sl] unfolding mirrored_def by blast

section \<open>What revise keeps\<close>

lemma filter_same_length:
  "\<not> length (filter P xs) < length xs \<Longrightarrow> x \<in> set xs \<Longrightarrow> P x"
  using length_filter_less [of x xs P] by blast

lemma revise_domain:
  assumes "revise cs ds a b = Returns (r, ds')" and "overlapsOf cs a b = Some ovs"
  shows "set (domainOf ds' a) = {w \<in> set (domainOf ds a). reviseKeeps ovs (domainOf ds b) w}"
proof -
  obtain m where m: "map_of cs a = Some m" "map_of m b = Some ovs"
    using assms(2) by (auto simp: overlapsOf_def split: option.splits)
  obtain d1 where d1: "map_of ds a = Some d1"
    using assms(1) m by (auto simp: revise_def split: option.splits)
  show ?thesis
  proof (cases "d1 = []")
    case True
    then show ?thesis
      using assms(1) m d1 by (auto simp: revise_def domainOf_def)
  next
    case False
    let ?new = "filter (reviseKeeps ovs (domainOf ds b)) d1"
    have nothrow: "\<not> (ovs \<noteq> [] \<and> map_of ds b = None)"
      using assms(1) m d1 False by (auto simp: revise_def split: if_splits)
    show ?thesis
    proof (cases "length ?new < length d1")
      case True
      then have "ds' = AList.update a ?new ds"
        using assms(1) m d1 False nothrow by (simp add: revise_def domainOf_def Let_def)
      then show ?thesis
        using d1 by (auto simp: domainOf_def update_conv')
    next
      case False
      then have "ds' = ds"
        using assms(1) m d1 \<open>d1 \<noteq> []\<close> nothrow by (simp add: revise_def domainOf_def Let_def)
      moreover have "\<And>w. w \<in> set d1 \<Longrightarrow> reviseKeeps ovs (domainOf ds b) w"
        using False filter_same_length [of "reviseKeeps ovs (domainOf ds b)" d1] by blast
      ultimately show ?thesis
        using d1 by (auto simp: domainOf_def)
    qed
  qed
qed

text \<open>
  Claim C4, amended. A call of \<open>revise(A, B)\<close> that returns keeps a word \<open>w\<close> of
  \<open>domain[A]\<close> exactly when \<^emph>\<open>some\<close> overlap pair \<open>(i, j)\<close> of \<open>constraints[A][B]\<close> has a word
  \<open>w'\<close> of \<open>domain[B]\<close> with \<open>w[i] = w'[j]\<close>; when the list holds exactly one pair this is the
  condition for every pair.
\<close>

theorem revise_retains:
  assumes "revise cs ds a b = Returns (r, ds')"
    and "overlapsOf cs a b = Some ovs"
    and "w \<in> set (domainOf ds a)"
  shows "(w \<in> set (domainOf ds' a)) =
           (\<exists>(i, j) \<in> set ovs. \<exists>w' \<in> set (domainOf ds b). charAt w i = charAt w' j)
         \<and> (length ovs = 1 \<longrightarrow>
              (w \<in> set (domainOf ds' a)) =
                (\<forall>(i, j) \<in> set ovs. \<exists>w' \<in> set (domainOf ds b). charAt w i = charAt w' j))"
proof -
  have keep: "(w \<in> set (domainOf ds' a)) = reviseKeeps ovs (domainOf ds b) w"
    using revise_domain [OF assms(1,2)] assms(3) by simp
  have some: "reviseKeeps ovs (domainOf ds b) w =
      (\<exists>(i, j) \<in> set ovs. \<exists>w' \<in> set (domainOf ds b). charAt w i = charAt w' j)"
    by (auto simp: reviseKeeps_def list_ex_iff)
  have "length ovs = 1 \<Longrightarrow>
      (\<exists>(i, j) \<in> set ovs. \<exists>w' \<in> set (domainOf ds b). charAt w i = charAt w' j) =
      (\<forall>(i, j) \<in> set ovs. \<exists>w' \<in> set (domainOf ds b). charAt w i = charAt w' j)"
    by (cases ovs) auto
  then show ?thesis
    using keep some by simp
qed

text \<open>
  Claim C4 as stated fails where a pair of slots has two overlap pairs: with
  \<open>domain[A] = [AB]\<close> and \<open>domain[B] = [AC]\<close> the call keeps \<open>AB\<close> (the pair \<open>(0, 0)\<close> has a
  partner) although the pair \<open>(1, 1)\<close> has none.
\<close>

theorem revise_every_overlap_counterexample:
  "revise cxConstraints cxDomains ''A'' ''B'' = Returns (False, cxDomains)
   \<and> overlapsOf cxConstraints ''A'' ''B'' = Some [(0, 0), (1, 1)]
   \<and> domainOf cxDomains ''A'' = [''AB'']
   \<and> domainOf cxDomains ''B'' = [''AC'']
   \<and> \<not> reviseKeepsEvery [(0, 0), (1, 1)] [''AC''] ''AB''"
  by (simp add: revise_def cxConstraints_def cxDomains_def overlapsOf_def domainOf_def
      reviseKeeps_def reviseKeepsEvery_def charAt_def)

theorem revise_retains_witness:
  "revise cxConstraints cxDomains ''A'' ''B'' = Returns (False, cxDomains)
   \<and> overlapsOf cxConstraints ''A'' ''B'' = Some [(0, 0), (1, 1)]
   \<and> ''AB'' \<in> set (domainOf cxDomains ''A'')
   \<and> ''AB'' \<in> set (domainOf cxDomains ''A'')
   \<and> (\<exists>(i, j) \<in> set [(0, 0), (1, 1)]. \<exists>w' \<in> set (domainOf cxDomains ''B'').
         charAt ''AB'' i = charAt w' j)"
proof -
  have r: "revise cxConstraints cxDomains ''A'' ''B'' = Returns (False, cxDomains)"
    by (simp add: revise_def cxConstraints_def cxDomains_def reviseKeeps_def charAt_def)
  have o: "overlapsOf cxConstraints ''A'' ''B'' = Some [(0, 0), (1, 1)]"
    by (simp add: cxConstraints_def overlapsOf_def)
  have w: "''AB'' \<in> set (domainOf cxDomains ''A'')"
    by (simp add: cxDomains_def domainOf_def)
  show ?thesis
    using revise_retains [OF r o w] r o w by blast
qed















lemma validateGrid_fillCellContents:
  "validateGrid g \<Longrightarrow> \<exists>cc. fillCellContents g = Returns cc"
  by (auto simp: validateGrid_def fillCellContents_def list_all_iff)















lemma generateSlots_fields:
  assumes "generateSlots st = Returns st'"
  shows "slots st' = identifySlots (grid st)"
    and "\<exists>cc. fillCellContents (grid st) = Returns cc \<and>
           domains st' = setupDomains (identifySlots (grid st)) cc (wordLengthCache st) []"
  using assms by (auto simp: generateSlots_def Let_def split: outcome.splits)



section \<open>Case analysis of a search step\<close>

lemma tryValues_Cons_cases:
  assumes "tryValues n st a cache var (val # rest) = Returns r"
  obtains (inconsistent)
      "isConsistent st var val a = Returns False"
      "tryValues n st a cache var rest = Returns r"
    | (wiped) st1 where
      "isConsistent st var val a = Returns True"
      "forwardCheck st var val (AList.update var val a) = Returns (None, st1)"
      "tryValues n (restoreDomains None st1) (AList.delete var (AList.update var val a))
         cache var rest = Returns r"
    | (found) saved st1 cache' st2 where
      "isConsistent st var val a = Returns True"
      "forwardCheck st var val (AList.update var val a) = Returns (Some saved, st1)"
      "search n st1 (AList.update var val a) cache = Returns (True, cache', st2)"
      "r = (True, cache', st2)"
    | (backtrack) saved st1 cache' st2 where
      "isConsistent st var val a = Returns True"
      "forwardCheck st var val (AList.update var val a) = Returns (Some saved, st1)"
      "search n st1 (AList.update var val a) cache = Returns (False, cache', st2)"
      "tryValues n (restoreDomains (Some saved) st2)
         (AList.delete var (AList.update var val a)) cache' var rest = Returns r"
proof (cases "isConsistent st var val a")
  case (Returns consistent)
  show ?thesis
  proof (cases consistent)
    case False
    have c: "isConsistent st var val a = Returns False"
      using Returns False by simp
    have "tryValues n st a cache var rest = Returns r"
      using assms c by simp
    then show ?thesis
      by (rule inconsistent [OF c])
  next
    case True
    show ?thesis
    proof (cases "forwardCheck st var val (AList.update var val a)")
      case fc: (Returns p)
      obtain inferences st1 where p: "p = (inferences, st1)" by (cases p)
      show ?thesis
      proof (cases inferences)
        case None
        have c: "isConsistent st var val a = Returns True"
          using Returns True by simp
        have fc': "forwardCheck st var val (AList.update var val a) = Returns (None, st1)"
          using fc p None by simp
        have "tryValues n (restoreDomains None st1)
                (AList.delete var (AList.update var val a)) cache var rest = Returns r"
          using assms c fc' by simp
        then show ?thesis
          by (rule wiped [OF c fc'])
      next
        case (Some saved)
        have c: "isConsistent st var val a = Returns True"
          using Returns True by simp
        have fc': "forwardCheck st var val (AList.update var val a) = Returns (Some saved, st1)"
          using fc p Some by simp
        show ?thesis
        proof (cases "search n st1 (AList.update var val a) cache")
          case s: (Returns q)
          obtain f cache' st2 where q: "q = (f, cache', st2)" by (cases q)
          show ?thesis
          proof (cases f)
            case True
            have s': "search n st1 (AList.update var val a) cache = Returns (True, cache', st2)"
              using s q True by simp
            have "r = (True, cache', st2)"
              using assms c fc' s' by simp
            then show ?thesis
              by (rule found [OF c fc' s'])
          next
            case False
            have s': "search n st1 (AList.update var val a) cache = Returns (False, cache', st2)"
              using s q False by simp
            have "tryValues n (restoreDomains (Some saved) st2)
                    (AList.delete var (AList.update var val a)) cache' var rest = Returns r"
              using assms c fc' s' by simp
            then show ?thesis
              by (rule backtrack [OF c fc' s'])
          qed
        next
          case Throws
          then show ?thesis
            using assms c fc' by simp
        next
          case OutOfFuel
          then show ?thesis
            using assms c fc' by simp
        qed
      qed
    next
      case Throws
      then show ?thesis using assms Returns True by simp
    next
      case OutOfFuel
      then show ?thesis using assms Returns True by simp
    qed
  qed
next
  case Throws
  then show ?thesis using assms by simp
next
  case OutOfFuel
  then show ?thesis using assms by simp
qed

lemma search_Suc_cases:
  assumes "search (Suc n) st a cache = Returns r"
  obtains (complete)
      "length a = length (slots st)"
      "r = (True, cache, st\<lparr>solution := a\<rparr>)"
    | (cached) b where
      "length a \<noteq> length (slots st)"
      "map_of cache (set a) = Some b"
      "r = (b, cache, st\<lparr>recursiveCalls := recursiveCalls st + 1\<rparr>)"
    | (novar) v st2 where
      "length a \<noteq> length (slots st)"
      "map_of cache (set a) = None"
      "selectUnassignedVariable (st\<lparr>recursiveCalls := recursiveCalls st + 1\<rparr>) a = (v, st2)"
      "v = None \<or> v = Some []"
      "r = (False, AList.update (set a) False cache, st2)"
    | (tried) var st2 orderedValues st3 found cache' st4 where
      "length a \<noteq> length (slots st)"
      "map_of cache (set a) = None"
      "selectUnassignedVariable (st\<lparr>recursiveCalls := recursiveCalls st + 1\<rparr>) a
         = (Some var, st2)"
      "var \<noteq> []"
      "orderDomainValues st2 var = (orderedValues, st3)"
      "tryValues n st3 a cache var orderedValues = Returns (found, cache', st4)"
      "r = (found, AList.update (set a) found cache', st4)"
proof (cases "length a = length (slots st)")
  case True
  then have "r = (True, cache, st\<lparr>solution := a\<rparr>)"
    using assms by simp
  then show ?thesis
    by (rule complete [OF True])
next
  case ne: False
  let ?st1 = "st\<lparr>recursiveCalls := recursiveCalls st + 1\<rparr>"
  show ?thesis
  proof (cases "map_of cache (set a)")
    case (Some b)
    then have "r = (b, cache, ?st1)"
      using assms ne by simp
    then show ?thesis
      by (rule cached [OF ne Some])
  next
    case None
    obtain v st2 where sel: "selectUnassignedVariable ?st1 a = (v, st2)"
      by (cases "selectUnassignedVariable ?st1 a")
    show ?thesis
    proof (cases "v = None \<or> v = Some []")
      case True
      then have "r = (False, AList.update (set a) False cache, st2)"
        using assms ne None sel by (auto simp: Let_def)
      then show ?thesis
        by (rule novar [OF ne None sel True])
    next
      case False
      then obtain var where var: "v = Some var" "var \<noteq> []"
        by (cases v) auto
      obtain orderedValues st3 where ord: "orderDomainValues st2 var = (orderedValues, st3)"
        by (cases "orderDomainValues st2 var")
      show ?thesis
      proof (cases "tryValues n st3 a cache var orderedValues")
        case (Returns q)
        obtain f cache' st4 where q: "q = (f, cache', st4)" by (cases q)
        have "r = (f, AList.update (set a) f cache', st4)"
          using assms ne None sel var ord Returns q by (simp add: Let_def)
        then show ?thesis
          by (rule tried [OF ne None sel [unfolded var(1)] var(2) ord Returns [unfolded q]])
      next
        case Throws
        then show ?thesis
          using assms ne None sel var ord by (simp add: Let_def)
      next
        case OutOfFuel
        then show ?thesis
          using assms ne None sel var ord by (simp add: Let_def)
      qed
    qed
  qed
qed

lemma sameFrame_refl: "sameFrame st st"
  by (simp add: sameFrame_def)

lemma sameFrame_trans: "sameFrame st st' \<Longrightarrow> sameFrame st' st'' \<Longrightarrow> sameFrame st st''"
  by (simp add: sameFrame_def)

lemma sameFrame_randomIndex: "randomIndex n st = (j, st') \<Longrightarrow> sameFrame st st'"
  by (auto simp: randomIndex_def sameFrame_def)

lemma domains_randomIndex: "randomIndex n st = (j, st') \<Longrightarrow> domains st' = domains st"
  by (auto simp: randomIndex_def)

lemma shuffleFrom_frame:
  "shuffleFrom k xs st = (ys, st') \<Longrightarrow> sameFrame st st' \<and> domains st' = domains st"
proof (induction k arbitrary: xs st)
  case 0
  then show ?case by (simp add: sameFrame_refl)
next
  case (Suc k)
  obtain j st1 where r: "randomIndex (Suc k + 1) st = (j, st1)"
    by (cases "randomIndex (Suc k + 1) st")
  then have "shuffleFrom k (xs[Suc k := xs ! j, j := xs ! Suc k]) st1 = (ys, st')"
    using Suc.prems by simp
  from Suc.IH [OF this] show ?case
    using sameFrame_randomIndex [OF r] domains_randomIndex [OF r] sameFrame_trans by auto
qed

lemma shuffleArray_frame:
  "shuffleArray xs st = (ys, st') \<Longrightarrow> sameFrame st st' \<and> domains st' = domains st"
  unfolding shuffleArray_def by (rule shuffleFrom_frame)

lemma orderDomainValues_frame:
  "orderDomainValues st slot = (vals, st') \<Longrightarrow> sameFrame st st' \<and> domains st' = domains st"
  unfolding orderDomainValues_def by (rule shuffleArray_frame)

lemma selectUnassignedVariable_frame:
  assumes "selectUnassignedVariable st a = (v, st')"
  shows "sameFrame st st' \<and> domains st' = domains st"
proof (cases "filter (\<lambda>s. map_of a s = None) (map fst (domains st)) = []")
  case True
  then show ?thesis
    using assms by (simp add: selectUnassignedVariable_def sameFrame_refl)
next
  case False
  define fin where "fin = snd (fold (degreeStep (constraints st))
      (snd (fold (mrvStep (domains st))
         (filter (\<lambda>s. map_of a s = None) (map fst (domains st))) (None, []))) (- 1, []))"
  obtain j st1 where r: "randomIndex (length fin) st = (j, st1)"
    by (cases "randomIndex (length fin) st")
  then have "st' = st1"
    using assms False unfolding selectUnassignedVariable_def Let_def fin_def by simp
  then show ?thesis
    using sameFrame_randomIndex [OF r] domains_randomIndex [OF r] by simp
qed

lemma update_existing_keys:
  "map_of al k = Some v \<Longrightarrow> map fst (AList.update k w al) = map fst al"
  by (induction al) (auto split: if_splits)

lemma forwardCheckLoop_Cons_cases:
  assumes "forwardCheckLoop cs slot val a (n # ns) inferences ds = Returns res"
  obtains (assigned) w where
      "map_of a n = Some w"
      "forwardCheckLoop cs slot val a ns inferences ds = Returns res"
    | (wiped) d where
      "map_of a n = None" "map_of ds n = Some d"
      "filterOutcome (wordsMatch cs slot val n) d = Returns []"
      "res = (None, ds)"
    | (pruned) d newDomain where
      "map_of a n = None" "map_of ds n = Some d"
      "filterOutcome (wordsMatch cs slot val n) d = Returns newDomain" "newDomain \<noteq> []"
      "forwardCheckLoop cs slot val a ns (AList.update n d inferences)
         (AList.update n newDomain ds) = Returns res"
proof (cases "map_of a n")
  case (Some w)
  then have "forwardCheckLoop cs slot val a ns inferences ds = Returns res"
    using assms by simp
  then show ?thesis
    by (rule assigned [OF Some])
next
  case None
  obtain d where d: "map_of ds n = Some d"
    using assms None by (cases "map_of ds n") auto
  obtain new where new: "filterOutcome (wordsMatch cs slot val n) d = Returns new"
    using assms None d by (cases "filterOutcome (wordsMatch cs slot val n) d") auto
  show ?thesis
  proof (cases "new = []")
    case True
    then have "res = (None, ds)"
      using assms None d new by simp
    then show ?thesis
      using wiped [OF None d] new True by simp
  next
    case False
    then have "forwardCheckLoop cs slot val a ns (AList.update n d inferences)
                 (AList.update n new ds) = Returns res"
      using assms None d new by simp
    then show ?thesis
      by (rule pruned [OF None d new False])
  qed
qed

lemma map_of_Some_key: "map_of al k = Some v \<Longrightarrow> k \<in> fst ` set al"
  by (induction al) (auto split: if_splits)

lemma update_keys_subset: "fst ` set (AList.update k v al) \<subseteq> insert k (fst ` set al)"
  by (induction al) auto

lemma forwardCheckLoop_keys:
  "forwardCheckLoop cs slot val a ns inferences ds = Returns (r, ds') \<Longrightarrow>
   map fst ds' = map fst ds \<and>
   (\<forall>saved. r = Some saved \<longrightarrow> fst ` set saved \<subseteq> fst ` set inferences \<union> fst ` set ds)"
proof (induction ns arbitrary: inferences ds)
  case Nil
  then show ?case by auto
next
  case (Cons n ns)
  from Cons.prems show ?case
  proof (cases rule: forwardCheckLoop_Cons_cases)
    case (assigned w)
    from Cons.IH [OF assigned(2)] show ?thesis .
  next
    case (wiped d)
    then show ?thesis by simp
  next
    case (pruned d newDomain)
    have k: "map fst (AList.update n newDomain ds) = map fst ds"
      using update_existing_keys [OF pruned(2)] .
    then have k': "fst ` set (AList.update n newDomain ds) = fst ` set ds"
      by (metis list.set_map)
    have sub: "fst ` set (AList.update n d inferences) \<subseteq> fst ` set inferences \<union> fst ` set ds"
      using update_keys_subset [of n d inferences] map_of_Some_key [OF pruned(2)] by auto
    note IH = Cons.IH [OF pruned(5)]
    show ?thesis
    proof (intro conjI allI impI)
      show "map fst ds' = map fst ds"
        using IH k by simp
    next
      fix saved
      assume "r = Some saved"
      then have "fst ` set saved
          \<subseteq> fst ` set (AList.update n d inferences) \<union> fst ` set (AList.update n newDomain ds)"
        using IH by blast
      then show "fst ` set saved \<subseteq> fst ` set inferences \<union> fst ` set ds"
        using sub k' by blast
    qed
  qed
qed

lemma forwardCheck_frame:
  assumes "forwardCheck st slot val a = Returns (r, st')"
  shows "sameFrame st st'"
    and "\<And>saved. r = Some saved \<Longrightarrow> fst ` set saved \<subseteq> fst ` set (domains st)"
proof -
  obtain ds' where loop: "forwardCheckLoop (constraints st) slot val a
        (neighborsOf (constraints st) slot) [] (domains st) = Returns (r, ds')"
    and st': "st' = st\<lparr>domains := ds'\<rparr>"
    using assms by (auto simp: forwardCheck_def split: outcome.splits)
  show "sameFrame st st'"
    using forwardCheckLoop_keys [OF loop] st' by (simp add: sameFrame_def)
  show "\<And>saved. r = Some saved \<Longrightarrow> fst ` set saved \<subseteq> fst ` set (domains st)"
    using forwardCheckLoop_keys [OF loop] by auto
qed

lemma restore_keys:
  "fst ` set saved \<subseteq> fst ` set ds \<Longrightarrow>
   map fst (fold (\<lambda>(v, d) ds. AList.update v d ds) saved ds) = map fst ds"
proof (induction saved arbitrary: ds)
  case Nil
  then show ?case by simp
next
  case (Cons e saved)
  obtain v d where e: "e = (v, d)" by (cases e)
  have "v \<in> set (map fst ds)"
    using Cons.prems e by auto
  then have k: "map fst (AList.update v d ds) = map fst ds"
    by (simp add: update_keys)
  then have "fst ` set saved \<subseteq> fst ` set (AList.update v d ds)"
    using Cons.prems by (metis list.set_map set_subset_Cons subset_trans image_mono)
  from Cons.IH [OF this] show ?case
    using k e by simp
qed

lemma restoreDomains_frame:
  assumes "\<And>saved. r = Some saved \<Longrightarrow> fst ` set saved \<subseteq> fst ` set (domains st)"
  shows "sameFrame st (restoreDomains r st)"
proof (cases r)
  case None
  then show ?thesis by (simp add: restoreDomains_def sameFrame_refl)
next
  case (Some saved)
  then show ?thesis
    using restore_keys [OF assms [OF Some]] by (simp add: restoreDomains_def sameFrame_def)
qed

lemma sameFrame_keys: "sameFrame st st' \<Longrightarrow> fst ` set (domains st') = fst ` set (domains st)"
  unfolding sameFrame_def by (metis list.set_map)

lemma tryValues_frame_step:
  assumes IH: "\<And>st a cache r. search n st a cache = Returns r \<Longrightarrow> sameFrame st (snd (snd r))"
  shows "tryValues n st a cache var vals = Returns r \<Longrightarrow> sameFrame st (snd (snd r))"
proof (induction vals arbitrary: st a cache)
  case Nil
  then show ?case by (auto simp: sameFrame_refl)
next
  case (Cons val rest)
  from Cons.prems show ?case
  proof (cases rule: tryValues_Cons_cases)
    case inconsistent
    from Cons.IH [OF inconsistent(2)] show ?thesis .
  next
    case (wiped st1)
    have "sameFrame st st1"
      using forwardCheck_frame(1) [OF wiped(2)] .
    moreover have "sameFrame st1 (snd (snd r))"
      using Cons.IH [OF wiped(3)] by (simp add: restoreDomains_def)
    ultimately show ?thesis
      by (rule sameFrame_trans)
  next
    case (found saved st1 cache' st2)
    have "sameFrame st st1"
      using forwardCheck_frame(1) [OF found(2)] .
    moreover have "sameFrame st1 st2"
      using IH [OF found(3)] by simp
    ultimately show ?thesis
      using found(4) sameFrame_trans by auto
  next
    case (backtrack saved st1 cache' st2)
    have f1: "sameFrame st st1"
      using forwardCheck_frame(1) [OF backtrack(2)] .
    have f2: "sameFrame st1 st2"
      using IH [OF backtrack(3)] by simp
    have "fst ` set saved \<subseteq> fst ` set (domains st)"
      using forwardCheck_frame(2) [OF backtrack(2)] by simp
    then have "fst ` set saved \<subseteq> fst ` set (domains st2)"
      using sameFrame_keys [OF f1] sameFrame_keys [OF f2] by simp
    then have f3: "sameFrame st2 (restoreDomains (Some saved) st2)"
      by (intro restoreDomains_frame) simp
    have f4: "sameFrame (restoreDomains (Some saved) st2) (snd (snd r))"
      using Cons.IH [OF backtrack(4)] .
    show ?thesis
      using f1 f2 f3 f4 sameFrame_trans by blast
  qed
qed

lemma search_frame: "search n st a cache = Returns r \<Longrightarrow> sameFrame st (snd (snd r))"
proof (induction n arbitrary: st a cache r)
  case 0
  then show ?case by simp
next
  case (Suc n)
  let ?st1 = "st\<lparr>recursiveCalls := recursiveCalls st + 1\<rparr>"
  have f1: "sameFrame st ?st1"
    by (simp add: sameFrame_def)
  from Suc.prems show ?case
  proof (cases rule: search_Suc_cases)
    case complete
    then show ?thesis by (simp add: sameFrame_def)
  next
    case (cached b)
    then show ?thesis using f1 by simp
  next
    case (novar v st2)
    then show ?thesis
      using f1 selectUnassignedVariable_frame [OF novar(3)] sameFrame_trans by auto
  next
    case (tried var st2 orderedValues st3 found cache' st4)
    have "sameFrame ?st1 st2"
      using selectUnassignedVariable_frame [OF tried(3)] by simp
    moreover have "sameFrame st2 st3"
      using orderDomainValues_frame [OF tried(5)] by simp
    moreover have "sameFrame st3 st4"
      using tryValues_frame_step [OF Suc.IH tried(6)] by simp
    ultimately show ?thesis
      using f1 tried(7) sameFrame_trans by (metis snd_conv)
  qed
qed

lemma tryValues_frame:
  "tryValues n st a cache var vals = Returns r \<Longrightarrow> sameFrame st (snd (snd r))"
  by (rule tryValues_frame_step [OF search_frame])

lemma mrvInv_step:
  assumes "mrvInv ds seen acc"
  shows "mrvInv ds (seen @ [slot]) (mrvStep ds slot acc)"
proof -
  obtain minSize candidates where acc: "acc = (minSize, candidates)" by (cases acc)
  show ?thesis
  proof (cases minSize)
    case None
    then show ?thesis
      using assms acc by (simp add: mrvInv_def mrvStep_def domainSize_def)
  next
    case (Some k)
    have size: "(case map_of ds slot of None \<Rightarrow> 0 | Some d \<Rightarrow> length d) = domainSize ds slot"
      by (simp add: domainSize_def)
    consider "domainSize ds slot < k" | "domainSize ds slot = k" | "k < domainSize ds slot"
      by linarith
    then show ?thesis
    proof cases
      case 1
      then show ?thesis
        using assms acc Some unfolding mrvInv_def mrvStep_def size
        by (auto simp: list_all_iff)
    next
      case 2
      then show ?thesis
        using assms acc Some unfolding mrvInv_def mrvStep_def size
        by (auto simp: list_all_iff)
    next
      case 3
      then show ?thesis
        using assms acc Some unfolding mrvInv_def mrvStep_def size
        by (auto simp: list_all_iff)
    qed
  qed
qed

lemma mrvInv_fold:
  "mrvInv ds seen acc \<Longrightarrow> mrvInv ds (seen @ xs) (fold (mrvStep ds) xs acc)"
proof (induction xs arbitrary: seen acc)
  case Nil
  then show ?case by simp
next
  case (Cons x xs)
  from Cons.IH [OF mrvInv_step [OF Cons.prems, of x]] show ?case
    by simp
qed

lemma mrv_candidates:
  fixes ds :: domains
  assumes "xs \<noteq> []"
  defines "candidates \<equiv> snd (fold (mrvStep ds) xs (None, []))"
  shows "candidates \<noteq> []" and "set candidates \<subseteq> set xs"
    and "\<And>c x. c \<in> set candidates \<Longrightarrow> x \<in> set xs \<Longrightarrow> domainSize ds c \<le> domainSize ds x"
proof -
  have "mrvInv ds ([] @ xs) (fold (mrvStep ds) xs (None, []))"
    by (rule mrvInv_fold) (simp add: mrvInv_def)
  moreover obtain m where "fold (mrvStep ds) xs (None, []) = (m, candidates)"
    unfolding candidates_def by (cases "fold (mrvStep ds) xs (None, [])") simp
  ultimately have inv: "mrvInv ds xs (m, candidates)"
    by simp
  then obtain k where k: "m = Some k"
    using assms(1) by (cases m) (auto simp: mrvInv_def)
  show "candidates \<noteq> []" and "set candidates \<subseteq> set xs"
    using inv k by (simp_all add: mrvInv_def)
  show "\<And>c x. c \<in> set candidates \<Longrightarrow> x \<in> set xs \<Longrightarrow> domainSize ds c \<le> domainSize ds x"
    using inv k by (auto simp: mrvInv_def list_all_iff)
qed

lemma degreeInv_step:
  assumes "degreeInv seen acc"
  shows "degreeInv (seen @ [slot]) (degreeStep cs slot acc)"
proof -
  obtain maxDegree fin where acc: "acc = (maxDegree, fin)" by (cases acc)
  define deg where "deg = (case map_of cs slot of None \<Rightarrow> 0 | Some m \<Rightarrow> int (length m))"
  have "0 \<le> deg"
    by (simp add: deg_def split: option.splits)
  then show ?thesis
    using assms acc unfolding degreeInv_def degreeStep_def deg_def [symmetric] Let_def
    by (cases "deg > maxDegree"; cases "deg = maxDegree") auto
qed

lemma degreeInv_fold:
  "degreeInv seen acc \<Longrightarrow> degreeInv (seen @ xs) (fold (degreeStep cs) xs acc)"
proof (induction xs arbitrary: seen acc)
  case Nil
  then show ?case by simp
next
  case (Cons x xs)
  from Cons.IH [OF degreeInv_step [OF Cons.prems, of x]] show ?case
    by simp
qed

lemma degree_candidates:
  fixes cs :: constraints
  assumes "xs \<noteq> []"
  defines "fin \<equiv> snd (fold (degreeStep cs) xs (- 1, []))"
  shows "fin \<noteq> []" and "set fin \<subseteq> set xs"
proof -
  have "degreeInv ([] @ xs) (fold (degreeStep cs) xs (- 1, []))"
    by (rule degreeInv_fold) (simp add: degreeInv_def)
  moreover obtain m where "fold (degreeStep cs) xs (- 1, []) = (m, fin)"
    unfolding fin_def by (cases "fold (degreeStep cs) xs (- 1, [])") simp
  ultimately have "degreeInv xs (m, fin)"
    by simp
  then show "fin \<noteq> []" and "set fin \<subseteq> set xs"
    using assms(1) by (simp_all add: degreeInv_def)
qed

text \<open>What \<open>selectUnassignedVariable\<close> returns: nothing when every domain key is assigned,
  otherwise an unassigned key with a domain of the smallest size.\<close>

lemma selectUnassignedVariable_result:
  assumes "selectUnassignedVariable st a = (v, st')"
  defines "unassigned \<equiv> filter (\<lambda>s. map_of a s = None) (map fst (domains st))"
  shows "unassigned = [] \<Longrightarrow> v = None"
    and "unassigned \<noteq> [] \<Longrightarrow>
         \<exists>var. v = Some var \<and> var \<in> set unassigned \<and>
           (\<forall>x \<in> set unassigned. domainSize (domains st) var \<le> domainSize (domains st) x)"
proof -
  show "unassigned = [] \<Longrightarrow> v = None"
    using assms(1) unfolding unassigned_def selectUnassignedVariable_def Let_def by simp
  assume ne: "unassigned \<noteq> []"
  define candidates where "candidates = snd (fold (mrvStep (domains st)) unassigned (None, []))"
  define fin where "fin = snd (fold (degreeStep (constraints st)) candidates (- 1, []))"
  have c: "candidates \<noteq> []" "set candidates \<subseteq> set unassigned"
    "\<And>c x. c \<in> set candidates \<Longrightarrow> x \<in> set unassigned \<Longrightarrow>
       domainSize (domains st) c \<le> domainSize (domains st) x"
    unfolding candidates_def using mrv_candidates [OF ne, where ds = "domains st"] by blast+
  have f: "fin \<noteq> []" "set fin \<subseteq> set candidates"
    unfolding fin_def using degree_candidates [OF c(1), where cs = "constraints st"] by blast+
  obtain j st1 where r: "randomIndex (length fin) st = (j, st1)"
    by (cases "randomIndex (length fin) st")
  have j: "j < length fin"
    using r f(1) by (auto simp: randomIndex_def)
  have "v = Some (fin ! j)"
    using assms(1) ne r j
    unfolding selectUnassignedVariable_def Let_def unassigned_def [symmetric]
      candidates_def [symmetric] fin_def [symmetric] by simp
  moreover have "fin ! j \<in> set candidates"
    using j f(2) nth_mem by blast
  ultimately show "\<exists>var. v = Some var \<and> var \<in> set unassigned \<and>
           (\<forall>x \<in> set unassigned. domainSize (domains st) var \<le> domainSize (domains st) x)"
    using c(2,3) by blast
qed

section \<open>The pipeline up to the search\<close>

lemma randomIndex_state: "randomIndex n st = (j, st') \<Longrightarrow> st' = st\<lparr>randomCount := Suc (randomCount st)\<rparr>"
  by (auto simp: randomIndex_def)

lemma selectUnassignedVariable_calls:
  assumes "selectUnassignedVariable st a = (v, st')"
  shows "recursiveCalls st' = recursiveCalls st"
proof (cases "filter (\<lambda>s. map_of a s = None) (map fst (domains st)) = []")
  case True
  then show ?thesis
    using assms by (simp add: selectUnassignedVariable_def)
next
  case False
  define fin where "fin = snd (fold (degreeStep (constraints st))
      (snd (fold (mrvStep (domains st))
         (filter (\<lambda>s. map_of a s = None) (map fst (domains st))) (None, []))) (- 1, []))"
  obtain j st1 where r: "randomIndex (length fin) st = (j, st1)"
    by (cases "randomIndex (length fin) st")
  then have "st' = st1"
    using assms False unfolding selectUnassignedVariable_def Let_def fin_def by simp
  then show ?thesis
    using randomIndex_state [OF r] by simp
qed

text \<open>With an empty domain among the keys, the first call of the search fails at once: it
  counts itself, picks a slot with an empty domain and has no value to try.\<close>

lemma search_empty_domain:
  assumes "slots st \<noteq> []" and "map_of (domains st) s = Some []"
  shows "\<exists>cache st'. search (Suc n) st [] [] = Returns (False, cache, st')
           \<and> recursiveCalls st' = recursiveCalls st + 1"
proof -
  let ?st1 = "st\<lparr>recursiveCalls := recursiveCalls st + 1\<rparr>"
  have ne: "length ([] :: assignment) \<noteq> length (slots st)"
    using assms(1) by simp
  obtain v st2 where sel: "selectUnassignedVariable ?st1 [] = (v, st2)"
    by (cases "selectUnassignedVariable ?st1 []")
  have calls: "recursiveCalls st2 = recursiveCalls st + 1"
    using selectUnassignedVariable_calls [OF sel] by simp
  have doms: "domains st2 = domains st"
    using selectUnassignedVariable_frame [OF sel] by simp
  have keys: "s \<in> set (map fst (domains st))"
    using map_of_Some_key [OF assms(2)] by simp
  then have un: "filter (\<lambda>s. map_of ([] :: assignment) s = None) (map fst (domains ?st1)) \<noteq> []"
    by auto
  obtain var where var: "v = Some var"
    and mem: "var \<in> set (map fst (domains st))"
    and small: "domainSize (domains st) var \<le> domainSize (domains st) s"
    using selectUnassignedVariable_result(2) [OF sel un] keys by auto
  have "domainSize (domains st) var = 0"
    using small assms(2) by (simp add: domainSize_def)
  moreover obtain d where "map_of (domains st) var = Some d"
    using mem by (metis list.set_map map_of_eq_None_iff not_None_eq)
  ultimately have d: "map_of (domains st) var = Some []"
    by (simp add: domainSize_def)
  have ord: "orderDomainValues st2 var = ([], st2)"
    by (simp add: orderDomainValues_def doms d shuffleArray_def)
  show ?thesis
  proof (cases "var = []")
    case True
    then have "search (Suc n) st [] [] = Returns (False, AList.update {} False [], st2)"
      using ne sel var by (simp add: Let_def)
    then show ?thesis
      using calls by simp
  next
    case False
    then have "search (Suc n) st [] [] = Returns (False, AList.update {} False [], st2)"
      using ne sel var ord by (simp add: Let_def)
    then show ?thesis
      using calls by simp
  qed
qed

lemma revise_keys:
  "revise cs ds a b = Returns (r, ds') \<Longrightarrow> map fst ds' = map fst ds"
  by (auto simp: revise_def Let_def update_existing_keys split: option.splits if_splits)

lemma ac3Loop_Cons_cases:
  assumes "ac3Loop cs ds ((var1, var2) # rest) = Returns res"
  obtains (unchanged) ds1 where
      "revise cs ds var1 var2 = Returns (False, ds1)"
      "ac3Loop cs ds1 (removeAll (var1, var2) rest) = Returns res"
    | (wiped) ds1 where
      "revise cs ds var1 var2 = Returns (True, ds1)"
      "map_of ds1 var1 = Some []"
      "res = (False, ds1)"
    | (revised) ds1 d where
      "revise cs ds var1 var2 = Returns (True, ds1)"
      "map_of ds1 var1 = Some d" "d \<noteq> []"
      "ac3Loop cs ds1
         (fold (\<lambda>(neighbor, ovs) q.
                  if neighbor \<noteq> var2 then queueAdd (neighbor, var1) q else q)
               (case map_of cs var1 of None \<Rightarrow> [] | Some m \<Rightarrow> m)
               (removeAll (var1, var2) rest)) = Returns res"
proof (cases "revise cs ds var1 var2")
  case (Returns p)
  obtain b ds1 where p: "p = (b, ds1)" by (cases p)
  show ?thesis
  proof (cases b)
    case False
    then have r: "revise cs ds var1 var2 = Returns (False, ds1)"
      using Returns p by simp
    then have "ac3Loop cs ds1 (removeAll (var1, var2) rest) = Returns res"
      using assms by (simp add: Let_def)
    then show ?thesis
      by (rule unchanged [OF r])
  next
    case True
    then have r: "revise cs ds var1 var2 = Returns (True, ds1)"
      using Returns p by simp
    obtain d where d: "map_of ds1 var1 = Some d"
      using assms r by (cases "map_of ds1 var1") (auto simp: Let_def)
    show ?thesis
    proof (cases "d = []")
      case True
      then have "res = (False, ds1)"
        using assms r d by (simp add: Let_def)
      then show ?thesis
        using wiped [OF r] d True by simp
    next
      case False
      then have "ac3Loop cs ds1
         (fold (\<lambda>(neighbor, ovs) q.
                  if neighbor \<noteq> var2 then queueAdd (neighbor, var1) q else q)
               (case map_of cs var1 of None \<Rightarrow> [] | Some m \<Rightarrow> m)
               (removeAll (var1, var2) rest)) = Returns res"
        using assms r d by (simp add: Let_def)
      then show ?thesis
        by (rule revised [OF r d False])
    qed
  qed
next
  case Throws
  then show ?thesis using assms by (simp add: Let_def)
next
  case OutOfFuel
  then show ?thesis using assms by (simp add: Let_def)
qed

lemma ac3Loop_keys:
  "ac3Loop cs ds q = Returns (b, ds') \<Longrightarrow> map fst ds' = map fst ds"
proof (induction cs ds q rule: ac3Loop.induct)
  case (1 cs ds)
  then show ?case by simp
next
  case (2 cs ds var1 var2 rest)
  from "2.prems" show ?case
  proof (cases rule: ac3Loop_Cons_cases)
    case (unchanged ds1)
    have "map fst ds' = map fst ds1"
      using "2.IH"(2) [OF refl unchanged(1) refl] unchanged(2) by simp
    then show ?thesis
      using revise_keys [OF unchanged(1)] by simp
  next
    case (wiped ds1)
    then show ?thesis
      using revise_keys [OF wiped(1)] by simp
  next
    case (revised ds1 d)
    have "map fst ds' = map fst ds1"
      using "2.IH"(1) [OF refl revised(1) refl] revised(2,3,4) by simp
    then show ?thesis
      using revise_keys [OF revised(1)] by simp
  qed
qed

lemma ac3Loop_failure:
  "ac3Loop cs ds q = Returns (False, ds') \<Longrightarrow> \<exists>s. map_of ds' s = Some []"
proof (induction cs ds q rule: ac3Loop.induct)
  case (1 cs ds)
  then show ?case by simp
next
  case (2 cs ds var1 var2 rest)
  from "2.prems" show ?case
  proof (cases rule: ac3Loop_Cons_cases)
    case (unchanged ds1)
    show ?thesis
      using "2.IH"(2) [OF refl unchanged(1) refl] unchanged(2) by simp
  next
    case (wiped ds1)
    then show ?thesis by auto
  next
    case (revised ds1 d)
    show ?thesis
      using "2.IH"(1) [OF refl revised(1) refl] revised(2,3,4) by simp
  qed
qed

lemma distinct_setupDomains_fold:
  "distinct (map fst ds) \<Longrightarrow>
   distinct (map fst (fold (\<lambda>(slot, positions) ds'.
             AList.update slot
               (filter (regexTest (slotPattern cc positions))
                       (getWordsByLength cache (length positions))) ds') sl ds))"
  by (induction sl arbitrary: ds) (auto simp: distinct_update)

lemma distinct_setupDomains: "distinct (map fst (setupDomains sl cc cache []))"
  unfolding setupDomains_def by (rule distinct_setupDomains_fold) simp

lemma randomizeDomains_fold_frame:
  "sameFrame st
     (fold (\<lambda>slot st'.
             case map_of (domains st') slot of
               None \<Rightarrow> st'
             | Some d \<Rightarrow>
                 (case shuffleArray d st' of
                    (d', st'') \<Rightarrow> st''\<lparr>domains := AList.update slot d' (domains st'')\<rparr>))
          ks st)"
proof (induction ks arbitrary: st)
  case Nil
  then show ?case by (simp add: sameFrame_refl)
next
  case (Cons k ks)
  define step where "step = (\<lambda>slot st'.
             case map_of (domains st') slot of
               None \<Rightarrow> st'
             | Some d \<Rightarrow>
                 (case shuffleArray d st' of
                    (d', st'') \<Rightarrow> st''\<lparr>domains := AList.update slot d' (domains st'')\<rparr>))"
  have "sameFrame st (step k st)"
  proof (cases "map_of (domains st) k")
    case None
    then show ?thesis by (simp add: step_def sameFrame_refl)
  next
    case (Some d)
    obtain d' st'' where sh: "shuffleArray d st = (d', st'')"
      by (cases "shuffleArray d st")
    have "sameFrame st st''" "domains st'' = domains st"
      using shuffleArray_frame [OF sh] by simp_all
    then show ?thesis
      using Some sh update_existing_keys [OF Some] by (simp add: step_def sameFrame_def)
  qed
  moreover have "sameFrame (step k st) (fold step ks (step k st))"
    using Cons.IH unfolding step_def by blast
  ultimately show ?case
    unfolding step_def [symmetric] using sameFrame_trans by auto
qed

lemma randomizeDomains_frame: "sameFrame st (randomizeDomains st)"
  unfolding randomizeDomains_def by (rule randomizeDomains_fold_frame)

lemma sameFrame_updateStatus:
  "sameFrame st st' \<Longrightarrow> map fst (domains (updateStatus m st')) = map fst (domains st)
     \<and> slots (updateStatus m st') = slots st \<and> constraints (updateStatus m st') = constraints st
     \<and> isSolving (updateStatus m st') = isSolving st"
  by (simp add: sameFrame_def updateStatus_def)

text \<open>The result the thread reports when the search says no, as \<open>reportSearch\<close> computes
  it.\<close>

lemma hasEmptyDomain_lookup:
  assumes "hasEmptyDomain ds" and "distinct (map fst ds)"
  shows "\<exists>s. map_of ds s = Some []"
proof -
  obtain s where "(s, []) \<in> set ds"
    using assms(1) by (auto simp: hasEmptyDomain_def list_ex_iff)
  then show ?thesis
    using assms(2) by (meson map_of_is_SomeI)
qed

text \<open>
  Claim C8. On a valid grid with at least one slot, when AC-3 returns false or leaves a
  slot with an empty domain, \<open>solveCrosswordThread\<close> goes on to the backtracking search:
  the status line announces it, the search is called from the state AC-3 left and makes
  one call, and what the thread reports is the search's answer (no solution).
\<close>

theorem ac3_failure_continues:
  assumes "validateGrid (grid st)"
    and "generateSlots st = Returns st1"
    and "slots st1 \<noteq> []"
    and "st2 = updateStatus ''Running AC-3 algorithm...'' (randomizeDomains st1)"
    and "ac3 (constraints st2) (domains st2) = Returns (ac3Success, ds)"
    and "\<not> ac3Success \<or> hasEmptyDomain ds"
  shows "\<exists>cache st'.
           backtrackingSolve (afterAc3 st2 ac3Success ds) = Returns (False, cache, st')
           \<and> recursiveCalls st' = 1
           \<and> solveCrosswordThread st
               = (NoSolution, updateStatus ''No possible solution found.'' st')
           \<and> last (statusLog (afterAc3 st2 ac3Success ds))
               = ''AC-3 failed or domains wiped out. Attempting backtracking...''"
proof -
  let ?start = "afterAc3 st2 ac3Success ds"
  have frame: "sameFrame st1 (randomizeDomains st1)"
    by (rule randomizeDomains_frame)
  have d1: "distinct (map fst (domains st1))"
    using generateSlots_fields(2) [OF assms(2)] distinct_setupDomains by auto
  have "map fst (domains st2) = map fst (domains st1)"
    using sameFrame_updateStatus [OF frame] assms(4) by simp
  moreover have "map fst ds = map fst (domains st2)"
    using assms(5) ac3Loop_keys unfolding ac3_def by blast
  ultimately have dist: "distinct (map fst ds)"
    using d1 by simp
  have "\<exists>s. map_of ds s = Some []"
    using assms(6)
  proof
    assume "\<not> ac3Success"
    then have "ac3Loop (constraints st2) (domains st2) (initialQueue (constraints st2))
                 = Returns (False, ds)"
      using assms(5) by (simp add: ac3_def)
    then show ?thesis
      by (rule ac3Loop_failure)
  next
    assume "hasEmptyDomain ds"
    then show ?thesis
      using hasEmptyDomain_lookup dist by blast
  qed
  then obtain s where s: "map_of (domains ?start) s = Some []"
    by (auto simp: afterAc3_def updateStatus_def)
  have sl: "slots ?start \<noteq> []"
    using sameFrame_updateStatus [OF frame] assms(3,4) by (simp add: afterAc3_def updateStatus_def)
  have calls: "recursiveCalls ?start = 0"
    by (simp add: afterAc3_def)
  obtain cache st' where
    run: "search (Suc (length (domains ?start))) ?start [] [] = Returns (False, cache, st')"
    and c: "recursiveCalls st' = recursiveCalls ?start + 1"
    using search_empty_domain [OF sl s] by blast
  have b: "backtrackingSolve ?start = Returns (False, cache, st')"
    using run by (simp add: backtrackingSolve_def)
  have "solveCrosswordThread st = reportSearch (backtrackingSolve ?start) ?start"
    using assms(1,2,3) assms(5) [unfolded assms(4)]
    unfolding solveCrosswordThread_def Let_def assms(4) by simp
  then have "solveCrosswordThread st
               = (NoSolution, updateStatus ''No possible solution found.'' st')"
    using b by (simp add: reportSearch_def)
  moreover have "last (statusLog ?start)
               = ''AC-3 failed or domains wiped out. Attempting backtracking...''"
    using assms(6) by (auto simp: afterAc3_def updateStatus_def)
  ultimately show ?thesis
    using b c calls by auto
qed

theorem ac3_failure_continues_witness:
  "validateGrid wipeGrid
   \<and> (\<exists>st1 ds. generateSlots (solverWith wipeGrid [''CA'', ''OB'']) = Returns st1
         \<and> slots st1 \<noteq> []
         \<and> ac3 (constraints st1) (domains (randomizeDomains st1)) = Returns (False, ds))
   \<and> fst (solveCrosswordThread (solverWith wipeGrid [''CA'', ''OB''])) = NoSolution"
proof -
  let ?st = "solverWith wipeGrid [''CA'', ''OB'']"
  define st1 where "st1 = ?st\<lparr>slots := identifySlots (grid ?st),
      cellContents := [((0, 0), None), ((0, 1), Some ''A''), ((1, 0), Some ''B'')],
      constraints := generateConstraints (identifySlots (grid ?st)),
      domains := setupDomains (identifySlots (grid ?st))
                   [((0, 0), None), ((0, 1), Some ''A''), ((1, 0), Some ''B'')]
                   (wordLengthCache ?st) []\<rparr>"
  define st2 where "st2 = updateStatus ''Running AC-3 algorithm...'' (randomizeDomains st1)"
  have g: "grid ?st = wipeGrid"
    by (simp add: solverWith_def)
  have v0: "validateGrid wipeGrid"
    by code_simp
  have v: "validateGrid (grid ?st)"
    unfolding g by (rule v0)
  have cc: "fillCellContents (grid ?st)
              = Returns [((0, 0), None), ((0, 1), Some ''A''), ((1, 0), Some ''B'')]"
    unfolding g by code_simp
  have gs: "generateSlots ?st = Returns st1"
    unfolding generateSlots_def cc st1_def Let_def by simp
  have sl: "slots st1 \<noteq> []"
    unfolding st1_def by code_simp
  have ac: "ac3 (constraints st2) (domains st2)
              = Returns (False, [(''1ACROSS'', []), (''1DOWN'', [''OB''])])"
    unfolding st2_def st1_def by code_simp
  have ac': "ac3 (constraints st1) (domains (randomizeDomains st1))
              = Returns (False, [(''1ACROSS'', []), (''1DOWN'', [''OB''])])"
    unfolding st1_def by code_simp
  have "fst (solveCrosswordThread ?st) = NoSolution"
    using ac3_failure_continues [OF v gs sl st2_def ac] by auto
  then show ?thesis
    using v0 gs sl ac' by blast
qed

section \<open>The busy flag\<close>

lemma isSolving_reportSearch:
  assumes "\<And>found cache st'. result = Returns (found, cache, st') \<Longrightarrow> isSolving st' = isSolving st"
  shows "isSolving (snd (reportSearch result st)) = isSolving st"
proof (cases result)
  case (Returns p)
  obtain found cache st' where "p = (found, cache, st')" by (cases p)
  then show ?thesis
    using assms Returns by (simp add: reportSearch_def updateStatus_def)
qed (simp_all add: reportSearch_def updateStatus_def)

lemma isSolving_backtrackingSolve:
  "backtrackingSolve st = Returns (found, cache, st') \<Longrightarrow> isSolving st' = isSolving st"
  unfolding backtrackingSolve_def using search_frame by (fastforce simp: sameFrame_def)

lemma isSolving_generateSlots:
  "generateSlots st = Returns st1 \<Longrightarrow> isSolving st1 = isSolving st"
  by (auto simp: generateSlots_def Let_def split: outcome.splits)

lemma isSolving_solveCrosswordThread:
  "isSolving (snd (solveCrosswordThread st)) = isSolving st"
proof (cases "validateGrid (grid st)")
  case False
  then show ?thesis
    by (simp add: solveCrosswordThread_def updateStatus_def)
next
  case valid: True
  show ?thesis
  proof (cases "generateSlots st")
    case (Returns st1)
    have s1: "isSolving st1 = isSolving st"
      using isSolving_generateSlots [OF Returns] .
    show ?thesis
    proof (cases "slots st1 = []")
      case True
      then show ?thesis
        using valid Returns s1 by (simp add: solveCrosswordThread_def updateStatus_def)
    next
      case False
      define st2 where "st2 = updateStatus ''Running AC-3 algorithm...'' (randomizeDomains st1)"
      have s2: "isSolving st2 = isSolving st"
        using sameFrame_updateStatus [OF randomizeDomains_frame [of st1]] s1 st2_def by simp
      show ?thesis
      proof (cases "ac3 (constraints st2) (domains st2)")
        case ac: (Returns p)
        obtain ok ds where p: "p = (ok, ds)" by (cases p)
        have s3: "isSolving (afterAc3 st2 ok ds) = isSolving st"
          using s2 by (simp add: afterAc3_def updateStatus_def)
        have "solveCrosswordThread st
                = reportSearch (backtrackingSolve (afterAc3 st2 ok ds)) (afterAc3 st2 ok ds)"
          using valid Returns False ac p
          unfolding solveCrosswordThread_def Let_def st2_def by simp
        then show ?thesis
          using isSolving_reportSearch [of "backtrackingSolve (afterAc3 st2 ok ds)"
              "afterAc3 st2 ok ds"] isSolving_backtrackingSolve s3
          by simp
      next
        case Throws
        then show ?thesis
          using valid Returns False s2
          unfolding solveCrosswordThread_def Let_def st2_def by (simp add: updateStatus_def)
      next
        case OutOfFuel
        then show ?thesis
          using valid Returns False s2
          unfolding solveCrosswordThread_def Let_def st2_def by (simp add: updateStatus_def)
      qed
    qed
  next
    case Throws
    then show ?thesis
      using valid by (simp add: solveCrosswordThread_def updateStatus_def)
  next
    case OutOfFuel
    then show ?thesis
      using valid by (simp add: solveCrosswordThread_def updateStatus_def)
  qed
qed

text \<open>
  Claim C9. While a solve is in progress (the flag is set), a call of \<open>solveCrossword\<close> is
  refused and changes nothing, so no second search starts. A call that is not refused
  leaves the flag set until the \<open>finally\<close> callback runs; that callback clears the flag
  whatever the thread reported, an error included, and the next call is accepted again.
\<close>

theorem busy_guard:
  "(isSolving st \<longrightarrow> solveCrossword st = (Busy, st))
   \<and> (\<not> isSolving st \<longrightarrow>
        (\<exists>r st'. solveCrossword st = (Started r, st') \<and> isSolving st'
                 \<and> \<not> isSolving (solveSettled st')
                 \<and> fst (solveCrossword (solveSettled st')) \<noteq> Busy))"
proof (intro conjI impI)
  assume "isSolving st"
  then show "solveCrossword st = (Busy, st)"
    by (simp add: solveCrossword_def)
next
  assume idle: "\<not> isSolving st"
  let ?st0 = "updateStatus ''Setting up constraints...'' (st\<lparr>isSolving := True\<rparr>)"
  obtain r st' where t: "solveCrosswordThread ?st0 = (r, st')"
    by (cases "solveCrosswordThread ?st0")
  have "isSolving st'"
    using isSolving_solveCrosswordThread [of ?st0] t by (simp add: updateStatus_def)
  moreover have "solveCrossword st = (Started r, st')"
    using idle t by (simp add: solveCrossword_def)
  moreover have "\<not> isSolving (solveSettled st')"
    by (simp add: solveSettled_def)
  moreover have "fst (solveCrossword (solveSettled st')) \<noteq> Busy"
    by (simp add: solveCrossword_def solveSettled_def split: prod.splits)
  ultimately show "\<exists>r st'. solveCrossword st = (Started r, st') \<and> isSolving st'
                 \<and> \<not> isSolving (solveSettled st')
                 \<and> fst (solveCrossword (solveSettled st')) \<noteq> Busy"
    by blast
qed

theorem busy_guard_witness:
  "isSolving ((solverWith wipeGrid [''CA'', ''OB''])\<lparr>isSolving := True\<rparr>)
   \<and> solveCrossword ((solverWith wipeGrid [''CA'', ''OB''])\<lparr>isSolving := True\<rparr>)
       = (Busy, (solverWith wipeGrid [''CA'', ''OB''])\<lparr>isSolving := True\<rparr>)
   \<and> \<not> isSolving (solverWith wipeGrid [''CA'', ''OB''])
   \<and> (\<exists>r st'. solveCrossword (solverWith wipeGrid [''CA'', ''OB'']) = (Started r, st')
          \<and> isSolving st' \<and> \<not> isSolving (solveSettled st'))"
proof -
  have busy: "isSolving ((solverWith wipeGrid [''CA'', ''OB''])\<lparr>isSolving := True\<rparr>)"
    by simp
  have idle: "\<not> isSolving (solverWith wipeGrid [''CA'', ''OB''])"
    by (simp add: solverWith_def)
  show ?thesis
    using busy_guard [of "(solverWith wipeGrid [''CA'', ''OB''])\<lparr>isSolving := True\<rparr>"]
      busy_guard [of "solverWith wipeGrid [''CA'', ''OB'']"] busy idle
    by blast
qed

end
